theory Spec2Isabelle
  imports Main "HOL-Library.Log_Nat" "HOL-Library.Signed_Division"
begin

section \<open>Go values the harness computes with\<close>

subsection \<open>float64\<close>

text \<open>
  A Go \<^verbatim>\<open>float64\<close> is an IEEE 754 binary64 value: not a number, an infinity, or a finite
  value, held here as the rational it denotes. The two zeros are one value \<open>Fin 0\<close>:
  the harness only compares floats and hands them to the formatter, and the only divisors
  it forms are \<^verbatim>\<open>float64(total)\<close> and the constant \<^verbatim>\<open>1e9\<close>, which are never the negative
  zero.
\<close>

datatype f64 = NaN | PInf | NInf | Fin rat

text \<open>Round to the nearest integer, ties to the even one.\<close>

definition rne :: "rat \<Rightarrow> int" where
  "rne x = (let f = \<lfloor>x\<rfloor>; d = x - of_int f in
     if d < 1 / 2 then f else if 1 / 2 < d then f + 1 else if even f then f else f + 1)"

text \<open>The binary exponent of a positive rational: the \<open>e\<close> with \<open>2^e \<le> x < 2^(e+1)\<close>.\<close>

definition ilog2 :: "rat \<Rightarrow> int" where
  "ilog2 x = (let (p, q) = quotient_of x; e = bitlen p - bitlen q in
     if 2 powi e \<le> x then e else e - 1)"

text \<open>
  Rounding of an exact result to binary64: 53 significant bits, the exponent not below
  -1022 (subnormal numbers), round to nearest even, overflow to an infinity when the
  rounded value reaches \<open>2^1024\<close>.
\<close>

definition round_f64 :: "rat \<Rightarrow> f64" where
  "round_f64 x = (if x = 0 then Fin 0 else
     let e = max (ilog2 \<bar>x\<bar>) (- 1022); u = 2 powi (e - 52); y = of_int (rne (x / u)) * u in
     if y \<noteq> 0 \<and> 1024 \<le> ilog2 \<bar>y\<bar> then (if 0 < x then PInf else NInf) else Fin y)"

text \<open>The conversion \<^verbatim>\<open>float64(d)\<close> of an integer.\<close>

definition f64_of_int :: "int \<Rightarrow> f64" where
  "f64_of_int d = round_f64 (of_int d)"

fun f64_div :: "f64 \<Rightarrow> f64 \<Rightarrow> f64" where
  "f64_div NaN b = NaN"
| "f64_div a NaN = NaN"
| "f64_div PInf (Fin y) = (if y < 0 then NInf else PInf)"
| "f64_div NInf (Fin y) = (if y < 0 then PInf else NInf)"
| "f64_div (Fin x) (Fin y) =
     (if y = 0 then (if x = 0 then NaN else if 0 < x then PInf else NInf)
      else round_f64 (x / y))"
| "f64_div (Fin x) b = Fin 0"
| "f64_div a b = NaN"

fun f64_mul :: "f64 \<Rightarrow> f64 \<Rightarrow> f64" where
  "f64_mul NaN b = NaN"
| "f64_mul a NaN = NaN"
| "f64_mul (Fin x) (Fin y) = round_f64 (x * y)"
| "f64_mul (Fin x) PInf = (if x = 0 then NaN else if 0 < x then PInf else NInf)"
| "f64_mul (Fin x) NInf = (if x = 0 then NaN else if 0 < x then NInf else PInf)"
| "f64_mul PInf (Fin y) = (if y = 0 then NaN else if 0 < y then PInf else NInf)"
| "f64_mul NInf (Fin y) = (if y = 0 then NaN else if 0 < y then NInf else PInf)"
| "f64_mul PInf PInf = PInf"
| "f64_mul NInf NInf = PInf"
| "f64_mul a b = NInf"

fun f64_add :: "f64 \<Rightarrow> f64 \<Rightarrow> f64" where
  "f64_add NaN b = NaN"
| "f64_add a NaN = NaN"
| "f64_add (Fin x) (Fin y) = round_f64 (x + y)"
| "f64_add PInf NInf = NaN"
| "f64_add NInf PInf = NaN"
| "f64_add (Fin x) b = b"
| "f64_add a b = a"

text \<open>The comparison \<^verbatim>\<open>a > b\<close>: false whenever an operand is not a number.\<close>

fun f64_gt :: "f64 \<Rightarrow> f64 \<Rightarrow> bool" where
  "f64_gt NaN b = False"
| "f64_gt a NaN = False"
| "f64_gt (Fin x) (Fin y) = (y < x)"
| "f64_gt PInf b = (b \<noteq> PInf)"
| "f64_gt a PInf = False"
| "f64_gt NInf b = False"
| "f64_gt a NInf = True"

definition f64_le :: "f64 \<Rightarrow> f64 \<Rightarrow> bool" where
  "f64_le a b = (a \<noteq> NaN \<and> b \<noteq> NaN \<and> \<not> f64_gt a b)"

subsection \<open>time.Duration\<close>

text \<open>
  A \<^verbatim>\<open>time.Duration\<close> is a count of nanoseconds (an \<^verbatim>\<open>int64\<close> in Go; the harness adds
  and compares durations of a test run, far from the range's ends).
\<close>

type_synonym duration = int

definition Second :: duration where
  "Second = 1000000000"

text \<open>\<^verbatim>\<open>d.Truncate(m)\<close>: \<^verbatim>\<open>d\<close> rounded toward zero to a multiple of \<^verbatim>\<open>m\<close>; \<^verbatim>\<open>d\<close> when \<^verbatim>\<open>m <= 0\<close>.
  Go's \<^verbatim>\<open>%\<close> has the sign of the dividend.\<close>

definition Truncate :: "duration \<Rightarrow> duration \<Rightarrow> duration" where
  "Truncate d m = (if m \<le> 0 then d else d - d smod m)"

text \<open>\<^verbatim>\<open>d.Seconds()\<close>: \<^verbatim>\<open>float64(d / Second) + float64(d % Second) / 1e9\<close>.\<close>

definition Seconds :: "duration \<Rightarrow> f64" where
  "Seconds d = f64_add (f64_of_int (d sdiv Second))
                       (f64_div (f64_of_int (d smod Second)) (Fin 1000000000))"

subsection \<open>Strings and UTF-8\<close>

text \<open>
  A Go string is a sequence of bytes; \<^typ>\<open>string\<close> is a list of 8-bit characters, read as
  numbers by \<^const>\<open>of_char\<close>. A rune is a code point, held as a natural number. The masks and
  shifts of \<^verbatim>\<open>unicode/utf8\<close> are written arithmetically: \<^verbatim>\<open>b & 0x3F\<close> is \<open>b mod 64\<close>, \<^verbatim>\<open>x << 6\<close>
  is \<open>x * 64\<close>, and an \<^verbatim>\<open>|\<close> of fields that do not overlap is their sum.
\<close>

type_synonym rune = nat

definition RuneError :: rune where
  "RuneError = 0xFFFD"

definition RuneSelf :: nat where
  "RuneSelf = 0x80"

definition MaxRune :: rune where
  "MaxRune = 0x10FFFF"

text \<open>The range \<^verbatim>\<open>acceptRanges\<close> gives the second byte, by the first byte (\<^verbatim>\<open>first[s0] >> 4\<close>).\<close>

definition acceptRange :: "nat \<Rightarrow> nat \<times> nat" where
  "acceptRange s0 =
     (if s0 = 0xE0 then (0xA0, 0xBF)
      else if s0 = 0xED then (0x80, 0x9F)
      else if s0 = 0xF0 then (0x90, 0xBF)
      else if s0 = 0xF4 then (0x80, 0x8F)
      else (0x80, 0xBF))"

text \<open>
  \<^verbatim>\<open>utf8.DecodeRuneInString\<close>: the first rune of the string and its width in bytes;
  \<open>(RuneError, 0)\<close> for the empty string and \<open>(RuneError, 1)\<close> for an encoding that is not
  valid. The bytes 0x80-0xC1 and 0xF5-0xFF start no encoding (\<^verbatim>\<open>first[s0] == xx\<close>); 0xC2-0xDF
  start one of two bytes, 0xE0-0xEF of three, 0xF0-0xF4 of four.
\<close>

fun DecodeRuneInString :: "string \<Rightarrow> rune \<times> nat" where
  "DecodeRuneInString [] = (RuneError, 0)"
| "DecodeRuneInString (c0 # s) =
     (let s0 = of_char c0 in
      if s0 < RuneSelf then (s0, 1)
      else if s0 < 0xC2 \<or> 0xF4 < s0 then (RuneError, 1)
      else
        let sz = (if s0 < 0xE0 then 2 else if s0 < 0xF0 then 3 else 4 :: nat);
            (lo, hi) = acceptRange s0
        in
        if length (c0 # s) < sz then (RuneError, 1)
        else
          let s1 = of_char (s ! 0) in
          if s1 < lo \<or> hi < s1 then (RuneError, 1)
          else if sz \<le> 2 then ((s0 mod 32) * 64 + s1 mod 64, 2)
          else
            let s2 = of_char (s ! 1) in
            if s2 < 0x80 \<or> 0xBF < s2 then (RuneError, 1)
            else if sz \<le> 3 then ((s0 mod 16) * 4096 + (s1 mod 64) * 64 + s2 mod 64, 3)
            else
              let s3 = of_char (s ! 2) in
              if s3 < 0x80 \<or> 0xBF < s3 then (RuneError, 1)
              else ((s0 mod 8) * 262144 + (s1 mod 64) * 4096 + (s2 mod 64) * 64 + s3 mod 64, 4))"

lemma DecodeRuneInString_width: "s \<noteq> [] \<Longrightarrow> 0 < snd (DecodeRuneInString s)"
  by (cases s) (simp_all add: Let_def split: prod.split)

lemma DecodeRuneInString_width_le: "snd (DecodeRuneInString s) \<le> length s"
proof (cases s)
  case Nil
  then show ?thesis by simp
next
  case (Cons c0 t)
  show ?thesis
    unfolding Cons DecodeRuneInString.simps Let_def
    by (auto simp: Suc_le_eq split: prod.split)
qed

declare DecodeRuneInString.simps(2) [simp del]

text \<open>\<^verbatim>\<open>strings.HasPrefix\<close>.\<close>

definition HasPrefix :: "string \<Rightarrow> string \<Rightarrow> bool" where
  "HasPrefix s p = (take (length p) s = p)"

section \<open>File names of the summary files\<close>

text \<open>
  \<^verbatim>\<open>reFilesystemSafe = regexp.MustCompile(`[^a-zA-Z1-9_]`)\<close>: the class of the runes that are
  kept. The digit \<^verbatim>\<open>0\<close> is not in it.
\<close>

definition safeRune :: "rune \<Rightarrow> bool" where
  "safeRune r = (0x61 \<le> r \<and> r \<le> 0x7A \<or> 0x41 \<le> r \<and> r \<le> 0x5A \<or> 0x31 \<le> r \<and> r \<le> 0x39 \<or> r = 0x5F)"

text \<open>
  \<^verbatim>\<open>reFilesystemSafe.ReplaceAllString(s, "_")\<close>. The regexp engine steps through the string
  rune by rune (a byte that starts no valid encoding is the rune \<^verbatim>\<open>RuneError\<close> of width 1);
  every rune outside the class is one match and is replaced by one underscore.
\<close>

function replaceUnsafe :: "string \<Rightarrow> string" where
  "replaceUnsafe s =
     (if s = [] then []
      else
        let (r, w) = DecodeRuneInString s in
        if safeRune r then take w s @ replaceUnsafe (drop w s)
        else ''_'' @ replaceUnsafe (drop w s))"
  by pat_completeness auto
termination
proof (relation "measure length")
  show "wf (measure length)" by simp
next
  fix s :: string and x r w
  assume "s \<noteq> []" "x = DecodeRuneInString s" "(r, w) = x"
  then have "0 < w" using DecodeRuneInString_width [of s] by (metis snd_conv)
  with \<open>s \<noteq> []\<close> show "(drop w s, s) \<in> measure length" by simp
  then show "(drop w s, s) \<in> measure length" .
qed

text \<open>
  \<^verbatim>\<open>reFilesystemDuplicate.ReplaceAllString(s, "_")\<close> with the expression \<^verbatim>\<open>_+\<close>: every
  maximal run of underscores becomes one underscore; the other runes are copied.
\<close>

function collapseUnderscores :: "string \<Rightarrow> string" where
  "collapseUnderscores s =
     (if s = [] then []
      else
        let (r, w) = DecodeRuneInString s in
        if r = 0x5F then ''_'' @ collapseUnderscores (dropWhile (\<lambda>c. c = CHR ''_'') (drop w s))
        else take w s @ collapseUnderscores (drop w s))"
  by pat_completeness auto
termination
proof (relation "measure length")
  show "wf (measure length)" by simp
next
  fix s :: string and x r w
  assume "s \<noteq> []" "x = DecodeRuneInString s" "(r, w) = x"
  then have "0 < w" using DecodeRuneInString_width [of s] by (metis snd_conv)
  with \<open>s \<noteq> []\<close> have "length (drop w s) < length s" by simp
  moreover have "length (dropWhile (\<lambda>c. c = CHR ''_'') (drop w s)) \<le> length (drop w s)"
    by (rule length_dropWhile_le)
  ultimately show "(dropWhile (\<lambda>c. c = CHR ''_'') (drop w s), s) \<in> measure length" by simp
  from \<open>length (drop w s) < length s\<close> show "(drop w s, s) \<in> measure length" by simp
qed

definition filesystemSafeName :: "string \<Rightarrow> string" where
  "filesystemSafeName s = collapseUnderscores (replaceUnsafe s)"

text \<open>The characters a safe name may hold, and the test for two underscores in a row.\<close>

definition allowedChars :: "char set" where
  "allowedChars =
     set (''ABCDEFGHIJKLMNOPQRSTUVWXYZ'' @ ''abcdefghijklmnopqrstuvwxyz'' @ ''123456789'' @ ''_'')"

fun adjacentUnderscores :: "string \<Rightarrow> bool" where
  "adjacentUnderscores (c # d # s) =
     (c = CHR ''_'' \<and> d = CHR ''_'' \<or> adjacentUnderscores (d # s))"
| "adjacentUnderscores s = False"

definition asciiString :: "string \<Rightarrow> bool" where
  "asciiString s = (\<forall>c \<in> set s. (of_char c :: nat) < 0x80)"

section \<open>Quoted strings (strconv, as fmt's verb q uses it)\<close>

text \<open>
  \<^verbatim>\<open>E2ETestLocator\<close> formats the test name with \<^verbatim>\<open>%q\<close>, which is \<^verbatim>\<open>strconv.Quote\<close>, and
  \<^verbatim>\<open>E2ETestFromLocator\<close> reads it back with \<^verbatim>\<open>strconv.Unquote\<close>. Both are functions of Go's
  standard library (the repository builds with Go 1.17) and are written out here. A rune
  is a 32-bit signed integer in Go; the runes that come from decoding a string are held as
  natural numbers, the values of escape sequences as integers, since eight hexadecimal
  digits can set the sign bit.
\<close>

definition dquote :: char where "dquote = CHR 0x22"
definition squote :: char where "squote = CHR 0x27"
definition bquote :: char where "bquote = CHR 0x60"
definition backslash :: char where "backslash = CHR 0x5C"
definition newline :: char where "newline = CHR 0x0A"
definition creturn :: char where "creturn = CHR 0x0D"

subsection \<open>Encoding a rune\<close>

text \<open>
  \<^verbatim>\<open>utf8.EncodeRune\<close>, by the value \<^verbatim>\<open>uint32(r)\<close>: one to four bytes; a value beyond \<^verbatim>\<open>MaxRune\<close>
  or in the surrogate range is encoded as \<^verbatim>\<open>RuneError\<close>.
\<close>

definition encode3 :: "nat \<Rightarrow> string" where
  "encode3 i = [char_of (0xE0 + i div 4096), char_of (0x80 + (i div 64) mod 64), char_of (0x80 + i mod 64)]"

definition encodeUint32 :: "nat \<Rightarrow> string" where
  "encodeUint32 i =
     (if i \<le> 0x7F then [char_of i]
      else if i \<le> 0x7FF then [char_of (0xC0 + i div 64), char_of (0x80 + i mod 64)]
      else if i > MaxRune \<or> (0xD800 \<le> i \<and> i \<le> 0xDFFF) then encode3 RuneError
      else if i \<le> 0xFFFF then encode3 i
      else [char_of (0xF0 + i div 262144), char_of (0x80 + (i div 4096) mod 64),
            char_of (0x80 + (i div 64) mod 64), char_of (0x80 + i mod 64)])"

definition EncodeRune :: "int \<Rightarrow> string" where
  "EncodeRune r = encodeUint32 (nat (r mod 2 ^ 32))"

text \<open>
  \<^verbatim>\<open>utf8.ValidString\<close>: every rune of the string decodes; the only decoding of width 1 that
  gives \<^verbatim>\<open>RuneError\<close> is that of an invalid byte.
\<close>

function ValidString :: "string \<Rightarrow> bool" where
  "ValidString s =
     (if s = [] then True
      else
        let (r, w) = DecodeRuneInString s in
        if r = RuneError \<and> w = 1 then False else ValidString (drop w s))"
  by pat_completeness auto
termination
proof (relation "measure length")
  show "wf (measure length)" by simp
next
  fix s :: string and x r w
  assume "s \<noteq> []" "x = DecodeRuneInString s" "(r, w) = x"
  then have "0 < w" using DecodeRuneInString_width [of s] by (metis snd_conv)
  with \<open>s \<noteq> []\<close> show "(drop w s, s) \<in> measure length" by simp
qed

subsection \<open>Quote\<close>

text \<open>
  \<^verbatim>\<open>strconv.IsPrint\<close>: for a rune up to 0xFF the test is written in the function; beyond, it
  searches the tables of the Unicode version at hand, which are taken as the predicate
  \<open>tables\<close>.
\<close>

definition IsPrint :: "(rune \<Rightarrow> bool) \<Rightarrow> rune \<Rightarrow> bool" where
  "IsPrint tables r =
     (if r \<le> 0xFF then
        (if 0x20 \<le> r \<and> r \<le> 0x7E then True
         else if 0xA1 \<le> r then r \<noteq> 0xAD
         else False)
      else tables r)"

definition lowerhex :: "nat \<Rightarrow> char" where
  "lowerhex n = ''0123456789abcdef'' ! n"

text \<open>The digits \<^verbatim>\<open>lowerhex[r>>s&0xF]\<close> for \<open>s\<close> from \<open>4 * (n - 1)\<close> down to 0.\<close>

fun hexDigits :: "nat \<Rightarrow> nat \<Rightarrow> string" where
  "hexDigits 0 r = []"
| "hexDigits (Suc n) r = lowerhex ((r div 16 ^ n) mod 16) # hexDigits n r"

text \<open>
  \<^verbatim>\<open>appendEscapedRune(buf, r, quote, false, false)\<close>: what is appended for the rune \<open>r\<close>.
\<close>

definition appendEscapedRune :: "(rune \<Rightarrow> bool) \<Rightarrow> rune \<Rightarrow> char \<Rightarrow> string" where
  "appendEscapedRune tables r quote =
     (if r = of_char quote \<or> r = of_char backslash then [backslash, char_of r]
      else if IsPrint tables r then EncodeRune (int r)
      else if r = 0x07 then [backslash, CHR ''a'']
      else if r = 0x08 then [backslash, CHR ''b'']
      else if r = 0x0C then [backslash, CHR ''f'']
      else if r = 0x0A then [backslash, CHR ''n'']
      else if r = 0x0D then [backslash, CHR ''r'']
      else if r = 0x09 then [backslash, CHR ''t'']
      else if r = 0x0B then [backslash, CHR ''v'']
      else if r < 0x20 then backslash # CHR ''x'' # hexDigits 2 r
      else if r > MaxRune then backslash # CHR ''u'' # hexDigits 4 0xFFFD
      else if r < 0x10000 then backslash # CHR ''u'' # hexDigits 4 r
      else backslash # CHR ''U'' # hexDigits 8 r)"

text \<open>The loop of \<^verbatim>\<open>appendQuotedWith\<close> over the runes of the string.\<close>

function quoteLoop :: "(rune \<Rightarrow> bool) \<Rightarrow> string \<Rightarrow> char \<Rightarrow> string" where
  "quoteLoop tables s quote =
     (if s = [] then []
      else
        let r0 = of_char (hd s);
            (r, width) = (if r0 \<ge> RuneSelf then DecodeRuneInString s else (r0, 1))
        in (if width = 1 \<and> r = RuneError
            then backslash # CHR ''x'' # hexDigits 2 (of_char (hd s))
            else appendEscapedRune tables r quote)
           @ quoteLoop tables (drop width s) quote)"
  by pat_completeness auto
termination
proof (relation "measure (\<lambda>(tables, s, quote). length s)")
  show "wf (measure (\<lambda>(tables, s, quote). length s))" by simp
next
  fix tables :: "rune \<Rightarrow> bool" and s :: string and quote :: char and r0 :: nat and x r width
  assume a: "s \<noteq> []" "x = (if RuneSelf \<le> r0 then DecodeRuneInString s else (r0, 1))" "(r, width) = x"
  have "0 < width"
  proof (cases "RuneSelf \<le> r0")
    case True
    with a show ?thesis using DecodeRuneInString_width [of s] by (metis snd_conv)
  next
    case False
    with a show ?thesis by simp
  qed
  with a(1) show "((tables, drop width s, quote), (tables, s, quote))
      \<in> measure (\<lambda>(tables, s, quote). length s)" by simp
qed

definition Quote :: "(rune \<Rightarrow> bool) \<Rightarrow> string \<Rightarrow> string" where
  "Quote tables s = dquote # quoteLoop tables s dquote @ [dquote]"

subsection \<open>Unquote\<close>

datatype strconv_error = ErrSyntax

fun unhex :: "char \<Rightarrow> nat option" where
  "unhex b =
     (let c = of_char b :: nat in
      if 0x30 \<le> c \<and> c \<le> 0x39 then Some (c - 0x30)
      else if 0x61 \<le> c \<and> c \<le> 0x66 then Some (c - 0x61 + 10)
      else if 0x41 \<le> c \<and> c \<le> 0x46 then Some (c - 0x41 + 10)
      else None)"

text \<open>
  The loop \<^verbatim>\<open>v = v<<4 | x\<close> over hexadecimal digits, on the 32 bits of \<open>v\<close>; and the value
  of the bits as an \<^verbatim>\<open>int32\<close>.
\<close>

fun hexValue :: "nat \<Rightarrow> string \<Rightarrow> nat option" where
  "hexValue v [] = Some v"
| "hexValue v (b # bs) =
     (case unhex b of None \<Rightarrow> None | Some x \<Rightarrow> hexValue ((v * 16 + x) mod 2 ^ 32) bs)"

definition asInt32 :: "nat \<Rightarrow> int" where
  "asInt32 v = (if v < 2 ^ 31 then int v else int v - 2 ^ 32)"

text \<open>The two digits after the first of an octal escape: \<^verbatim>\<open>v = (v << 3) | x\<close>.\<close>

fun octValue :: "nat \<Rightarrow> string \<Rightarrow> nat option" where
  "octValue v [] = Some v"
| "octValue v (b # bs) =
     (let c = of_char b :: nat in
      if c < 0x30 \<or> 0x37 < c then None else octValue (v * 8 + (c - 0x30)) bs)"

text \<open>
  \<^verbatim>\<open>strconv.UnquoteChar(s, quote)\<close>: the value of the first character or escape sequence,
  whether it is to be encoded as a rune, and the rest of the string; \<open>None\<close> is the
  syntax error.
\<close>

definition unquoteEscape :: "char \<Rightarrow> string \<Rightarrow> char \<Rightarrow> (int \<times> bool \<times> string) option" where
  "unquoteEscape c s quote =
     (if c = CHR ''a'' then Some (0x07, False, s)
      else if c = CHR ''b'' then Some (0x08, False, s)
      else if c = CHR ''f'' then Some (0x0C, False, s)
      else if c = CHR ''n'' then Some (0x0A, False, s)
      else if c = CHR ''r'' then Some (0x0D, False, s)
      else if c = CHR ''t'' then Some (0x09, False, s)
      else if c = CHR ''v'' then Some (0x0B, False, s)
      else if c = CHR ''x'' \<or> c = CHR ''u'' \<or> c = CHR ''U'' then
        (let n = (if c = CHR ''x'' then 2 else if c = CHR ''u'' then 4 else 8 :: nat) in
         if length s < n then None
         else case hexValue 0 (take n s) of
                None \<Rightarrow> None
              | Some bits \<Rightarrow>
                  let v = asInt32 bits in
                  if c = CHR ''x'' then Some (v, False, drop n s)
                  else if v > int MaxRune then None
                  else Some (v, True, drop n s))
      else if 0x30 \<le> (of_char c :: nat) \<and> (of_char c :: nat) \<le> 0x37 then
        (if length s < 2 then None
         else case octValue (of_char c - 0x30) (take 2 s) of
                None \<Rightarrow> None
              | Some v \<Rightarrow> if v > 255 then None else Some (int v, False, drop 2 s))
      else if c = backslash then Some (of_char backslash, False, s)
      else if c = squote \<or> c = dquote then
        (if c \<noteq> quote then None else Some (of_char c, False, s))
      else None)"

definition UnquoteChar :: "string \<Rightarrow> char \<Rightarrow> (int \<times> bool \<times> string) option" where
  "UnquoteChar s quote =
     (case s of
        [] \<Rightarrow> None
      | c # s1 \<Rightarrow>
          if c = quote \<and> (quote = squote \<or> quote = dquote) then None
          else if (of_char c :: nat) \<ge> RuneSelf then
            (let (r, size) = DecodeRuneInString s in Some (int r, True, drop size s))
          else if c \<noteq> backslash then Some (of_char c, False, s1)
          else (case s1 of
                  [] \<Rightarrow> None
                | c2 # s2 \<Rightarrow> unquoteEscape c2 s2 quote))"

lemma unquoteEscape_shorter:
  "unquoteEscape c s quote = Some (r, multibyte, rest) \<Longrightarrow> length rest \<le> length s"
  by (auto simp: unquoteEscape_def Let_def split: if_splits option.splits)

lemma UnquoteChar_Cons:
  "UnquoteChar (c # s1) quote =
     (if c = quote \<and> (quote = squote \<or> quote = dquote) then None
      else if (of_char c :: nat) \<ge> RuneSelf then
        Some (int (fst (DecodeRuneInString (c # s1))), True,
              drop (snd (DecodeRuneInString (c # s1))) (c # s1))
      else if c \<noteq> backslash then Some (of_char c, False, s1)
      else (case s1 of [] \<Rightarrow> None | c2 # s2 \<Rightarrow> unquoteEscape c2 s2 quote))"
  unfolding UnquoteChar_def list.case split_beta Let_def ..

lemma UnquoteChar_shorter:
  assumes "UnquoteChar s quote = Some (r, multibyte, rest)"
  shows "length rest < length s"
proof (cases s)
  case Nil
  with assms show ?thesis by (simp add: UnquoteChar_def)
next
  case (Cons c s1)
  have w: "0 < snd (DecodeRuneInString (c # s1))"
    using DecodeRuneInString_width [of "c # s1"] by simp
  show ?thesis
  proof (cases s1)
    case Nil
    with assms Cons w show ?thesis
      by (auto simp: UnquoteChar_Cons split: if_splits)
  next
    case s1: (Cons c2 s2)
    from assms Cons s1 w unquoteEscape_shorter [of c2 s2 quote r multibyte rest] show ?thesis
      by (auto simp: UnquoteChar_Cons split: if_splits)
  qed
qed

text \<open>
  The loop of \<^verbatim>\<open>unquote\<close> over a quoted string with escape sequences: it stops at the
  quote character or at the end, and after one character of a single-quoted string. A
  newline that is not escaped is a syntax error.
\<close>

function unquoteLoop :: "char \<Rightarrow> string \<Rightarrow> string \<Rightarrow> (string \<times> string) option" where
  "unquoteLoop quote inp buf =
     (if inp \<noteq> [] \<and> hd inp \<noteq> quote then
        (case UnquoteChar inp quote of
           None \<Rightarrow> None
         | Some (r, multibyte, rest) \<Rightarrow>
             if hd inp = newline then None
             else
               let buf' = buf @ (if r < int RuneSelf \<or> \<not> multibyte
                                 then [char_of (nat (r mod 256))] else EncodeRune r)
               in if quote = squote then Some (buf', rest)
                  else unquoteLoop quote rest buf')
      else Some (buf, inp))"
  by pat_completeness auto
termination
  by (relation "measure (\<lambda>(quote, inp, buf). length inp)") (auto dest: UnquoteChar_shorter)

text \<open>\<^verbatim>\<open>index(s, c)\<close>: the place of the first \<open>c\<close> in \<open>s\<close>, if there is one.\<close>

fun index :: "string \<Rightarrow> char \<Rightarrow> nat option" where
  "index [] c = None"
| "index (b # s) c = (if b = c then Some 0 else map_option Suc (index s c))"

definition contains :: "string \<Rightarrow> char \<Rightarrow> bool" where
  "contains s c = (index s c \<noteq> None)"

text \<open>
  \<^verbatim>\<open>strconv.Unquote(s)\<close>, which is \<^verbatim>\<open>unquote(s, true)\<close> with the demand that nothing follows
  the quoted string. \<open>end\<close> is the place after the first quote character behind the
  opening one.
\<close>

definition Unquote :: "string \<Rightarrow> strconv_error + string" where
  "Unquote inp =
     (if length inp < 2 then Inl ErrSyntax
      else
        let quote = hd inp in
        case index (tl inp) quote of
          None \<Rightarrow> Inl ErrSyntax
        | Some e \<Rightarrow>
            let end = e + 2;
                finish = (\<lambda>out rest. if length rest > 0 then Inl ErrSyntax else Inr out)
            in
            if quote = bquote then
              (if \<not> contains (take end inp) creturn
               then finish (take (end - 2) (drop 1 inp)) (drop end inp)
               else finish (filter (\<lambda>c. c \<noteq> creturn) (take (end - 2) (drop 1 inp))) (drop end inp))
            else if quote = dquote \<or> quote = squote then
              (if \<not> contains (take end inp) backslash \<and> \<not> contains (take end inp) newline
                  \<and> (if quote = dquote then ValidString (take (end - 2) (drop 1 inp))
                      else (let (r, n) = DecodeRuneInString (take (end - 2) (drop 1 inp))
                            in 1 + n + 1 = end \<and> (r \<noteq> RuneError \<or> n \<noteq> 1)))
               then finish (take (end - 2) (drop 1 inp)) (drop end inp)
               else
                 (case unquoteLoop quote (tl inp) [] of
                    None \<Rightarrow> Inl ErrSyntax
                  | Some (buf, rest) \<Rightarrow>
                      if \<not> (length rest > 0 \<and> hd rest = quote) then Inl ErrSyntax
                      else finish buf (tl rest)))
            else Inl ErrSyntax)"

section \<open>Locators of tests (monitorapi)\<close>

text \<open>
  \<^verbatim>\<open>strings.SplitN(s, "/", 2)\<close>: the string cut at its first slash, or the string alone when
  it has none.
\<close>

definition SplitN2 :: "string \<Rightarrow> char \<Rightarrow> string list" where
  "SplitN2 s sep = (case index s sep of None \<Rightarrow> [s] | Some i \<Rightarrow> [take i s, drop (Suc i) s])"

definition E2ETestLocator :: "(rune \<Rightarrow> bool) \<Rightarrow> string \<Rightarrow> string" where
  "E2ETestLocator tables testName = ''e2e-test/'' @ Quote tables testName"

text \<open>
  \<^verbatim>\<open>E2ETestFromLocator\<close>. Reading \<^verbatim>\<open>parts[1]\<close> of a slice with one element would be a
  run-time panic; it is a result of the model, and the theorems show that it never occurs.
\<close>

datatype index_panic = IndexOutOfRange

definition E2ETestFromLocator :: "string \<Rightarrow> index_panic + (string \<times> bool)" where
  "E2ETestFromLocator locator =
     (if \<not> HasPrefix locator ''e2e-test/'' then Inr ([], False)
      else
        let parts = SplitN2 locator CHR ''/'' in
        if length parts \<le> 1 then Inl IndexOutOfRange
        else
          let quotedTestName = parts ! 1 in
          case Unquote quotedTestName of
            Inl err \<Rightarrow> Inr ([], False)
          | Inr testName \<Rightarrow> Inr (testName, True))"

definition IsE2ETest :: "string \<Rightarrow> index_panic + bool" where
  "IsE2ETest locator = map_sum id snd (E2ETestFromLocator locator)"

subsection \<open>The pieces of a quoted string\<close>

text \<open>
  One turn of the loop of \<open>quoteLoop\<close>: the rune at the head of the string with its width,
  and what is appended for it; and the bytes that one turn of the loop of \<open>unquoteLoop\<close>
  appends for the value that \<open>UnquoteChar\<close> returns.
\<close>

definition firstRune :: "string \<Rightarrow> rune \<times> nat" where
  "firstRune s = (if (of_char (hd s) :: nat) \<ge> RuneSelf then DecodeRuneInString s else (of_char (hd s), 1))"

definition quotePiece :: "(rune \<Rightarrow> bool) \<Rightarrow> string \<Rightarrow> char \<Rightarrow> string" where
  "quotePiece tables s quote =
     (if snd (firstRune s) = 1 \<and> fst (firstRune s) = RuneError
      then backslash # CHR ''x'' # hexDigits 2 (of_char (hd s))
      else appendEscapedRune tables (fst (firstRune s)) quote)"

definition unquoted :: "int \<Rightarrow> bool \<Rightarrow> string" where
  "unquoted v multibyte =
     (if v < int RuneSelf \<or> \<not> multibyte then [char_of (nat (v mod 256))] else EncodeRune v)"

section \<open>The disruption harness: reporting\<close>

subsection \<open>Monitor intervals and test summaries\<close>

text \<open>
  Modelled from the spec: the types \<^verbatim>\<open>monitorapi.Condition\<close>, \<^verbatim>\<open>monitorapi.EventInterval\<close> and
  \<^verbatim>\<open>monitorapi.Intervals\<close> are declared outside the source files at hand. The spec's data
  model gives an interval the fields level, locator, message, from and to; the two times
  are nanosecond counts.
\<close>

datatype level = Info | Warning | Error

record condition =
  Level :: level
  Locator :: string
  CondMessage :: string

record event_interval = condition +
  From :: int
  To :: int

type_synonym intervals = "event_interval list"

text \<open>
  The summaries a test leaves on its framework (\<^verbatim>\<open>f.TestSummaries\<close>): the struct
  \<^verbatim>\<open>additionalTest{Name, Failure, Duration}\<close>, the string type \<^verbatim>\<open>flakeSummary\<close> and the struct
  \<^verbatim>\<open>additionalEvents{Events}\<close>.
\<close>

datatype summary =
    AdditionalTest string string duration
  | FlakeSummary string
  | AdditionalEvents intervals

record framework =
  TestSummaries :: "summary list"

fun SummaryKind :: "summary \<Rightarrow> string" where
  "SummaryKind (AdditionalTest n f d) = ''AdditionalTest''"
| "SummaryKind (FlakeSummary s) = ''Flake''"
| "SummaryKind (AdditionalEvents ev) = ''AdditionalEvents''"

subsection \<open>The JUnit report\<close>

text \<open>
  \<^verbatim>\<open>junit.Failure\<close> and \<^verbatim>\<open>junit.Error\<close> have the same three fields; \<^verbatim>\<open>junit.TestCase\<close> and
  \<^verbatim>\<open>junit.TestSuite\<close> are held with the fields the harness reads or writes. A composite
  literal leaves the fields it does not name at their zero value.
\<close>

record failure =
  Message :: string
  Type :: string
  Value :: string

record test_case =
  Name :: string
  Classname :: string
  Time :: f64
  Errors :: "failure list"
  Failures :: "failure list"
  Skipped :: string

definition TestCase :: "string \<Rightarrow> string \<Rightarrow> f64 \<Rightarrow> test_case" where
  "TestCase name classname time =
     \<lparr>Name = name, Classname = classname, Time = time, Errors = [], Failures = [], Skipped = []\<rparr>"

record test_suite =
  SuiteName :: string
  Package :: string
  SuiteTime :: f64
  TestCases :: "test_case list"

subsection \<open>What the harness takes from outside\<close>

text \<open>
  A value recovered from a panic: \<^verbatim>\<open>ginkgowrapper.FailurePanic\<close> and \<^verbatim>\<open>e2eskipper.SkipPanic\<close>
  (both with the fields Message, Filename, Line and FullStackTrace, in this order), or a
  value of any other type, named by a string.
\<close>

datatype panic =
    FailurePanic string string int string
  | SkipPanic string string int string
  | OtherPanic string

text \<open>The operands of a \<^verbatim>\<open>fmt\<close> call.\<close>

datatype arg =
    AString string
  | AInt int
  | ADuration duration
  | AFloat f64
  | AValue panic
  | AError string

text \<open>What a file holds: bytes, the JSON of a summary, or the XML encoding of a suite.\<close>

datatype content =
    Bytes string
  | MarshalJSON summary
  | EventsIntervalsToJSON intervals
  | XML test_suite

text \<open>
  The environment of a run: the report directory of the test context, the answers of the
  file system (the error of \<^verbatim>\<open>os.Create\<close> and of \<^verbatim>\<open>ioutil.WriteFile\<close> on a path, if any),
  the library functions \<^verbatim>\<open>fmt.Sprintf\<close> and \<^verbatim>\<open>filepath.Join\<close>, and the rendering of one
  interval as a line of text (\<^verbatim>\<open>monitorapi\<close>, outside the source files at hand). The theorems
  hold for whatever these functions compute.
\<close>

record env =
  ReportDir :: string
  createError :: "string \<Rightarrow> string option"
  writeError :: "string \<Rightarrow> string option"
  Sprintf :: "string \<Rightarrow> arg list \<Rightarrow> string"
  Join :: "string \<Rightarrow> string \<Rightarrow> string"
  IntervalString :: "event_interval \<Rightarrow> string"

text \<open>
  The effects of the harness: the files written, the lines printed on standard error and
  by \<^verbatim>\<open>framework.Logf\<close>, whether ginkgo has the current test as failed, and the notes of the
  events sent to the cluster's event recorder.
\<close>

record world =
  files :: "(string \<times> content) list"
  stderr :: "string list"
  logs :: "string list"
  ginkgoFailed :: bool
  recorded :: "string list"

definition nl :: string where
  "nl = [CHR 0x0A]"

fun PrintJSON :: "summary \<Rightarrow> content" where
  "PrintJSON (AdditionalTest n f d) = MarshalJSON (AdditionalTest n f d)"
| "PrintJSON (FlakeSummary s) = Bytes ''{\"type\":\"Flake\"}''"
| "PrintJSON (AdditionalEvents ev) = EventsIntervalsToJSON ev"

subsection \<open>Finalizing the suite (the deferred function of runChaosmonkey)\<close>

text \<open>
  The inner loop over \<^verbatim>\<open>testCase.Failures\<close>: a failure of type \<^verbatim>\<open>Flake\<close> becomes one of type
  \<^verbatim>\<open>Failure\<close> (the slice holds pointers, so the case changes), any other failure clears
  \<^verbatim>\<open>allFlakes\<close>.
\<close>

fun retypeFlakes :: "failure list \<Rightarrow> bool \<Rightarrow> failure list \<times> bool" where
  "retypeFlakes [] allFlakes = ([], allFlakes)"
| "retypeFlakes (failure # rest) allFlakes =
     (if Type failure = ''Flake''
      then (let (rest', a) = retypeFlakes rest allFlakes
            in (failure\<lparr>Type := ''Failure''\<rparr> # rest', a))
      else (let (rest', a) = retypeFlakes rest False
            in (failure # rest', a)))"

text \<open>
  The loop \<^verbatim>\<open>for _, testCase := range testSuite.TestCases\<close>. The range expression is
  evaluated once, so the loop visits the \<open>n\<close> cases the suite had at its start; a case
  appended by the body is not visited. The suite's cases are held by value in the order
  of the slice: the harness allocates every case once and appends it once, so a position
  stands for the pointer.
\<close>

function flakeLoop :: "nat \<Rightarrow> nat \<Rightarrow> test_case list \<Rightarrow> test_case list" where
  "flakeLoop i n cases =
     (if i < n then
        let testCase = cases ! i;
            allFlakes0 = (length (Failures testCase) > 0 \<and> length (Errors testCase) = 0
                          \<and> length (Skipped testCase) = 0);
            (failures', allFlakes) = retypeFlakes (Failures testCase) allFlakes0;
            testCase' = testCase\<lparr>Failures := failures'\<rparr>;
            cases1 = cases[i := testCase'];
            cases2 = (if allFlakes
                      then cases1 @ [TestCase (Name testCase') (Classname testCase') (Time testCase')]
                      else cases1)
        in flakeLoop (i + 1) n cases2
      else cases)"
  by pat_completeness auto
termination
  by (relation "measure (\<lambda>(i, n, cases). n - i)") auto

text \<open>
  The deferred function, run when the suite ends. \<open>elapsed\<close> is \<^verbatim>\<open>time.Since(start)\<close> and
  \<open>unixNow\<close> is \<^verbatim>\<open>time.Now().Unix()\<close>. \<^verbatim>\<open>testSuite.Update()\<close> recomputes the counters of the
  suite, which are not among the fields held here. When the report file cannot be
  created the function returns; the result of the encoder is not looked at.
\<close>

definition runChaosmonkey_deferred ::
  "env \<Rightarrow> duration \<Rightarrow> int \<Rightarrow> test_suite \<Rightarrow> world \<Rightarrow> test_suite \<times> world" where
  "runChaosmonkey_deferred E elapsed unixNow testSuite w =
     (let ts1 = testSuite\<lparr>SuiteTime := Seconds elapsed\<rparr>;
          ts2 = ts1\<lparr>TestCases := flakeLoop 0 (length (TestCases ts1)) (TestCases ts1)\<rparr>
      in if ReportDir E \<noteq> [] then
           let fname = Join E (ReportDir E)
                         (Sprintf E ''junit_%s_%d.xml'' [AString (Package ts2), AInt unixNow])
           in (case createError E fname of
                 Some err \<Rightarrow> (ts2, w)
               | None \<Rightarrow> (ts2, w\<lparr>files := files w @ [(fname, XML ts2)]\<rparr>))
         else (ts2, w))"

subsection \<open>Finalizing one test (finalizeTest)\<close>

text \<open>
  The loop over \<^verbatim>\<open>f.TestSummaries\<close>: an \<^verbatim>\<open>additionalTest\<close> becomes a case of the suite; any
  other summary is written to a file of its own, and a failure to write is printed on
  standard error.
\<close>

fun writeSummaries ::
  "env \<Rightarrow> string \<Rightarrow> string \<Rightarrow> summary list \<Rightarrow> test_suite \<times> world \<Rightarrow> test_suite \<times> world" where
  "writeSummaries E name stamp [] (ts, w) = (ts, w)"
| "writeSummaries E name stamp (AdditionalTest tname failure dur # rest) (ts, w) =
     (let testCase = TestCase tname [] (Seconds dur);
          testCase' = (if length failure > 0
                       then testCase\<lparr>Failures := Failures testCase
                                         @ [\<lparr>Message = failure, Type = [], Value = failure\<rparr>]\<rparr>
                       else testCase)
      in writeSummaries E name stamp rest (ts\<lparr>TestCases := TestCases ts @ [testCase']\<rparr>, w))"
| "writeSummaries E name stamp (summary # rest) (ts, w) =
     (let filePath = Join E (ReportDir E)
                       (Sprintf E ''%s_%s_%s.json''
                          [AString (SummaryKind summary), AString (filesystemSafeName name),
                           AString stamp])
      in writeSummaries E name stamp rest
           (ts, (case writeError E filePath of
                   None \<Rightarrow> w\<lparr>files := files w @ [(filePath, PrintJSON summary)]\<rparr>
                 | Some err \<Rightarrow>
                     w\<lparr>stderr := stderr w
                         @ [Sprintf E (''error: Failed to write file %v with test data: %v'' @ nl)
                              [AString filePath, AError err]]\<rparr>)))"

text \<open>\<^verbatim>\<open>hasFrameworkFlake\<close>: the message of the first flake summary, if there is one.\<close>

fun hasFrameworkFlake :: "summary list \<Rightarrow> string \<times> bool" where
  "hasFrameworkFlake [] = ([], False)"
| "hasFrameworkFlake (FlakeSummary s # rest) = (s, True)"
| "hasFrameworkFlake (summary # rest) = hasFrameworkFlake rest"

text \<open>
  \<^verbatim>\<open>finalizeTest(start, tc, ts, f)\<close>, with the value \<open>r\<close> that \<^verbatim>\<open>recover()\<close> returns (\<open>None\<close>
  when the test did not panic). \<open>elapsed\<close> is \<^verbatim>\<open>now.Sub(start)\<close>, \<open>stamp\<close> is
  \<^verbatim>\<open>now.Format(time.RFC3339)\<close> and \<open>stack\<close> is \<^verbatim>\<open>debug.Stack()\<close>. The case \<^verbatim>\<open>tc\<close> is reached
  through its pointer, so the function returns it beside the suite. The framework is a
  pointer: the loop over \<^verbatim>\<open>f.TestSummaries\<close> reads through it before the test \<^verbatim>\<open>f != nil\<close> is
  made, and a nil framework ends the call in a run-time panic there. A panic that ginkgo
  has not recorded is raised again under \<^verbatim>\<open>GinkgoRecover\<close>, which records it.
\<close>

datatype runtime_panic = NilPointerDereference

definition finalizeTest ::
  "env \<Rightarrow> duration \<Rightarrow> string \<Rightarrow> string \<Rightarrow> panic option \<Rightarrow> test_case \<Rightarrow> test_suite
     \<Rightarrow> framework option \<Rightarrow> world \<Rightarrow> runtime_panic + (test_case \<times> test_suite \<times> world)" where
  "finalizeTest E elapsed stamp stack r tc ts f w =
     (let tc1 = tc\<lparr>Time := Seconds elapsed\<rparr> in
      case f of
        None \<Rightarrow> Inl NilPointerDereference
      | Some fw \<Rightarrow>
          let (ts1, w1) = writeSummaries E (Name tc1) stamp (TestSummaries fw) (ts, w) in
          (case r of
             None \<Rightarrow>
               (case hasFrameworkFlake (TestSummaries fw) of
                  (message, True) \<Rightarrow>
                    Inr (tc1\<lparr>Failures := Failures tc1
                               @ [\<lparr>Message = message, Type = ''Flake'', Value = message\<rparr>]\<rparr>,
                         ts1, w1)
                | (message, False) \<Rightarrow> Inr (tc1, ts1, w1))
           | Some p \<Rightarrow>
               let w2 = w1\<lparr>logs := logs w1 @ [Sprintf E ''recover: %v'' [AValue p]]\<rparr>;
                   tc2 = (case p of
                            FailurePanic msg file line trace \<Rightarrow>
                              tc1\<lparr>Failures :=
                                    [\<lparr>Message = msg, Type = ''Failure'',
                                      Value = Sprintf E (''%s'' @ nl @ nl @ ''%s'')
                                                [AString msg, AString trace]\<rparr>]\<rparr>
                          | SkipPanic msg file line trace \<Rightarrow>
                              tc1\<lparr>Skipped := Sprintf E ''%s:%d %q''
                                                [AString file, AInt line, AString msg]\<rparr>
                          | OtherPanic v \<Rightarrow>
                              tc1\<lparr>Errors :=
                                    [\<lparr>Message = Sprintf E ''%v'' [AValue p], Type = ''Panic'',
                                      Value = Sprintf E (''%v'' @ nl @ nl @ ''%s'')
                                                [AValue p, AString stack]\<rparr>]\<rparr>);
                   w3 = (if \<not> ginkgoFailed w2
                         then w2\<lparr>logs := logs w2
                                    @ [Sprintf E ''%q: panic: %v'' [AString (Name tc2), AValue p]],
                                 ginkgoFailed := True\<rparr>
                         else w2)
               in Inr (tc2, ts1, w3)))"

subsection \<open>The report entries the claims speak of\<close>

text \<open>
  A case that only flaked: it has failures, no errors, is not skipped, and every failure
  has the type \<^verbatim>\<open>Flake\<close>. Its retyped form, and the passing entry made for it.
\<close>

definition onlyFlakes :: "test_case \<Rightarrow> bool" where
  "onlyFlakes tc = (Failures tc \<noteq> [] \<and> Errors tc = [] \<and> Skipped tc = []
                    \<and> list_all (\<lambda>f. Type f = ''Flake'') (Failures tc))"

definition retypeFailure :: "failure \<Rightarrow> failure" where
  "retypeFailure f = (if Type f = ''Flake'' then f\<lparr>Type := ''Failure''\<rparr> else f)"

definition retyped :: "test_case \<Rightarrow> test_case" where
  "retyped tc = tc\<lparr>Failures := map retypeFailure (Failures tc)\<rparr>"

definition passing :: "test_case \<Rightarrow> test_case" where
  "passing tc = TestCase (Name tc) (Classname tc) (Time tc)"

text \<open>The case a call of \<open>finalizeTest\<close> leaves, when the call returns.\<close>

definition finalizedCase :: "runtime_panic + (test_case \<times> test_suite \<times> world) \<Rightarrow> test_case option" where
  "finalizedCase res = (case res of Inl p \<Rightarrow> None | Inr (tc, ts, w) \<Rightarrow> Some tc)"

text \<open>
  The path of the JSON file of a summary and of the XML file of the suite, and the
  writes of summary files that fail: the path and the error, in the order of the summaries.
\<close>

definition summaryPath :: "env \<Rightarrow> string \<Rightarrow> string \<Rightarrow> summary \<Rightarrow> string" where
  "summaryPath E name stamp summary =
     Join E (ReportDir E)
       (Sprintf E ''%s_%s_%s.json''
          [AString (SummaryKind summary), AString (filesystemSafeName name), AString stamp])"

definition xmlPath :: "env \<Rightarrow> string \<Rightarrow> int \<Rightarrow> string" where
  "xmlPath E package unixNow =
     Join E (ReportDir E) (Sprintf E ''junit_%s_%d.xml'' [AString package, AInt unixNow])"

fun isAdditionalTest :: "summary \<Rightarrow> bool" where
  "isAdditionalTest (AdditionalTest n f d) = True"
| "isAdditionalTest s = False"

fun failedWrites :: "env \<Rightarrow> string \<Rightarrow> string \<Rightarrow> summary list \<Rightarrow> (string \<times> string) list" where
  "failedWrites E name stamp [] = []"
| "failedWrites E name stamp (s # rest) =
     (if isAdditionalTest s then failedWrites E name stamp rest
      else case writeError E (summaryPath E name stamp s) of
             None \<Rightarrow> failedWrites E name stamp rest
           | Some err \<Rightarrow> (summaryPath E name stamp s, err) # failedWrites E name stamp rest)"

definition writeErrorLine :: "env \<Rightarrow> string \<times> string \<Rightarrow> string" where
  "writeErrorLine E pe =
     Sprintf E (''error: Failed to write file %v with test data: %v'' @ nl)
       [AString (fst pe), AError (snd pe)]"

section \<open>The disruption harness: ExpectNoDisruption\<close>

text \<open>
  Modelled from the spec: the method \<^verbatim>\<open>Intervals.Duration\<close> is not in the source files at
  hand. The spec: "compute duration = sum of interval lengths (durations below a 1-second
  floor are treated as zero, to avoid over-counting jitter)". The call passes two
  durations, \<^verbatim>\<open>events.Duration(0, 1*time.Second)\<close>; the second is the floor, and the spec
  gives the first no role.
\<close>

definition intervalLength :: "event_interval \<Rightarrow> duration" where
  "intervalLength i = To i - From i"

fun Duration :: "duration \<Rightarrow> duration \<Rightarrow> intervals \<Rightarrow> duration" where
  "Duration d0 minimum [] = 0"
| "Duration d0 minimum (i # rest) =
     (if intervalLength i < minimum then 0 else intervalLength i) + Duration d0 minimum rest"

text \<open>
  Modelled from the spec: \<^verbatim>\<open>Intervals.Strings\<close> is not in the source files at hand either; the
  spec has "a human-readable dump of every interval", one line for each.
\<close>

definition Strings :: "env \<Rightarrow> intervals \<Rightarrow> string list" where
  "Strings E events = map (IntervalString E) events"

text \<open>\<^verbatim>\<open>strings.Join(elems, sep)\<close>.\<close>

fun joinStrings :: "string list \<Rightarrow> string \<Rightarrow> string" where
  "joinStrings [] sep = []"
| "joinStrings [x] sep = x"
| "joinStrings (x # y # rest) sep = x @ sep @ joinStrings (y # rest) sep"

text \<open>
  How a call ends: it returns, or \<^verbatim>\<open>framework.Failf\<close> fails the test with the formatted
  message (a panic that unwinds to \<open>finalizeTest\<close>).
\<close>

datatype outcome = Returned | Failed string

definition FrameworkEventIntervals :: "framework \<Rightarrow> intervals \<Rightarrow> framework" where
  "FrameworkEventIntervals f events =
     f\<lparr>TestSummaries := TestSummaries f @ [AdditionalEvents events]\<rparr>"

definition FrameworkFlakef ::
  "env \<Rightarrow> framework \<Rightarrow> string \<Rightarrow> arg list \<Rightarrow> world \<Rightarrow> framework \<times> world" where
  "FrameworkFlakef E f format options w =
     (f\<lparr>TestSummaries := TestSummaries f @ [FlakeSummary (Sprintf E format options)]\<rparr>,
      w\<lparr>logs := logs w @ [Sprintf E format options]\<rparr>)"

definition failFormat :: string where
  "failFormat = ''%s for at least %s of %s (%0.0f%%, but only %0.0f%% is tolerated):'' @ nl @ nl @ ''%s''"

definition flakeFormat :: string where
  "flakeFormat = ''%s for at least %s of %s (%0.0f%%), this is currently sufficient to pass the''
     @ '' test/job but not considered completely correct.'' @ nl
     @ ''Tolerating up to %0.0f%% disruption:'' @ nl @ nl @ ''%s''"

text \<open>
  \<^verbatim>\<open>ExpectNoDisruption(f, tolerate, total, events, reason)\<close>. The quotient and the comparison
  are those of \<^verbatim>\<open>float64\<close>.
\<close>

definition ExpectNoDisruption ::
  "env \<Rightarrow> framework \<Rightarrow> f64 \<Rightarrow> duration \<Rightarrow> intervals \<Rightarrow> string \<Rightarrow> world
     \<Rightarrow> framework \<times> world \<times> outcome" where
  "ExpectNoDisruption E f tolerate totalDur events reason w =
     (let f1 = FrameworkEventIntervals f events;
          duration = Duration 0 (1 * Second) events;
          describe = Strings E events;
          percent = f64_div (f64_of_int duration) (f64_of_int totalDur)
      in if f64_gt percent tolerate then
           (f1, w, Failed (Sprintf E failFormat
              [AString reason, ADuration (Truncate duration Second),
               ADuration (Truncate totalDur Second), AFloat (f64_mul percent (Fin 100)),
               AFloat (f64_mul tolerate (Fin 100)), AString (joinStrings describe nl)]))
         else if duration > 0 then
           (let (f2, w2) = FrameworkFlakef E f1 flakeFormat
              [AString reason, ADuration (Truncate duration Second),
               ADuration (Truncate totalDur Second), AFloat (f64_mul percent (Fin 100)),
               AFloat (f64_mul tolerate (Fin 100)), AString (joinStrings describe nl)] w
            in (f2, w2, Returned))
         else (f1, w, Returned))"

text \<open>The quantities the claims name: the summed duration and the fraction of the window.\<close>

definition disruption :: "intervals \<Rightarrow> duration" where
  "disruption events = Duration 0 (1 * Second) events"

definition fraction :: "duration \<Rightarrow> duration \<Rightarrow> f64" where
  "fraction d totalDur = f64_div (f64_of_int d) (f64_of_int totalDur)"

definition subSecond :: "event_interval \<Rightarrow> bool" where
  "subSecond i = (intervalLength i < Second)"

definition exampleInterval :: "int \<Rightarrow> int \<Rightarrow> event_interval" where
  "exampleInterval a b =
     \<lparr>Level = Error, Locator = ''disruption/service-loadbalancer-with-pdb connection/new'',
      CondMessage = ''stopped responding'', From = a, To = b\<rparr>"

section \<open>The service upgrade test: the probe functions\<close>

text \<open>
  The functions of the \<^verbatim>\<open>monitor\<close> package the test calls are outside the source files at
  hand and are taken as given: the locator of a disruption check and the three message
  builders. The theorems hold for whatever they compute.
\<close>

datatype connection_type = NewConnectionType | ReusedConnectionType

record monitor_lib =
  LocateDisruptionCheck :: "string \<Rightarrow> connection_type \<Rightarrow> string"
  DisruptionBeganMessage :: "string \<Rightarrow> connection_type \<Rightarrow> string \<Rightarrow> string"
  DisruptionEndedMessage :: "string \<Rightarrow> connection_type \<Rightarrow> string"
  DisruptionContinuingMessage :: "string \<Rightarrow> connection_type \<Rightarrow> string \<Rightarrow> string"

text \<open>
  What one probe meets: \<^verbatim>\<open>client.Get(url)\<close> fails, or it answers and reading the body fails,
  or the body is read.
\<close>

datatype http_result = GetError string | ReadError string | Body string

text \<open>\<^verbatim>\<open>bytes.Contains\<close>.\<close>

fun Contains :: "string \<Rightarrow> string \<Rightarrow> bool" where
  "Contains [] sub = (sub = [])"
| "Contains (c # s) sub = (HasPrefix (c # s) sub \<or> Contains s sub)"

text \<open>
  The two variables named \<^verbatim>\<open>err\<close>. The statement \<^verbatim>\<open>body, err := ioutil.ReadAll(resp.Body)\<close>
  stands inside the block of \<^verbatim>\<open>if err == nil\<close> and declares a new \<^verbatim>\<open>err\<close> there; the error of
  reading and the error made for a body without \<^verbatim>\<open>Hello\<close> are assigned to this inner
  variable, which ends with the block. The \<^verbatim>\<open>switch\<close> after the block reads the outer
  variable, the result of \<^verbatim>\<open>Get\<close>.
\<close>

definition innerErr :: "env \<Rightarrow> http_result \<Rightarrow> string option" where
  "innerErr E res =
     (case res of
        GetError e \<Rightarrow> None
      | ReadError e \<Rightarrow> Some e
      | Body body \<Rightarrow>
          if \<not> Contains body ''Hello''
          then Some (Sprintf E ''service returned success but did not contain the correct body contents: %q''
                       [AString body])
          else None)"

definition outerErr :: "http_result \<Rightarrow> string option" where
  "outerErr res = (case res of GetError e \<Rightarrow> Some e | ReadError e \<Rightarrow> None | Body body \<Rightarrow> None)"

text \<open>
  The function handed to \<^verbatim>\<open>monitor.NewSampler\<close>: from the previous state and the result of
  the probe, the condition to log (if any) and the next state. The two functions of
  \<^verbatim>\<open>startEndpointMonitoring\<close> differ in the client, the locator, the connection type and the
  words \<open>how\<close> of the log line and of the event.
\<close>

definition sample ::
  "env \<Rightarrow> monitor_lib \<Rightarrow> string \<Rightarrow> string \<Rightarrow> connection_type \<Rightarrow> string \<Rightarrow> bool \<Rightarrow> http_result \<Rightarrow> world
     \<Rightarrow> (condition option \<times> bool) \<times> world" where
  "sample E M svcName locator connType how previous res w =
     (let inner = innerErr E res;
          err = outerErr res
      in case err of
           None \<Rightarrow>
             if \<not> previous
             then ((Some \<lparr>Level = Info, Locator = locator,
                          CondMessage = DisruptionEndedMessage M locator connType\<rparr>, True), w)
             else ((None, True), w)
         | Some e \<Rightarrow>
             let w1 = w\<lparr>logs := logs w @ [Sprintf E (''Service %s is unreachable on '' @ how @ '': %v'')
                                             [AString svcName, AError e]]\<rparr>
             in if previous
                then ((Some \<lparr>Level = Error, Locator = locator,
                             CondMessage = DisruptionBeganMessage M locator connType e\<rparr>, False),
                      w1\<lparr>recorded := recorded w1 @ [''on '' @ how]\<rparr>)
                else ((None, False), w1))"

definition sampleReusedConnection ::
  "env \<Rightarrow> monitor_lib \<Rightarrow> string \<Rightarrow> bool \<Rightarrow> http_result \<Rightarrow> world \<Rightarrow> (condition option \<times> bool) \<times> world" where
  "sampleReusedConnection E M svcName previous res w =
     sample E M svcName (LocateDisruptionCheck M ''service-loadbalancer-with-pdb'' ReusedConnectionType)
       ReusedConnectionType ''reused connections'' previous res w"

definition sampleNewConnection ::
  "env \<Rightarrow> monitor_lib \<Rightarrow> string \<Rightarrow> bool \<Rightarrow> http_result \<Rightarrow> world \<Rightarrow> (condition option \<times> bool) \<times> world" where
  "sampleNewConnection E M svcName previous res w =
     sample E M svcName (LocateDisruptionCheck M ''service-loadbalancer-with-pdb'' NewConnectionType)
       NewConnectionType ''new connections'' previous res w"

text \<open>The two conditions of a transition, as the claims name them.\<close>

definition began :: "monitor_lib \<Rightarrow> connection_type \<Rightarrow> string \<Rightarrow> condition" where
  "began M connType e =
     \<lparr>Level = Error, Locator = LocateDisruptionCheck M ''service-loadbalancer-with-pdb'' connType,
      CondMessage = DisruptionBeganMessage M
        (LocateDisruptionCheck M ''service-loadbalancer-with-pdb'' connType) connType e\<rparr>"

definition ended :: "monitor_lib \<Rightarrow> connection_type \<Rightarrow> condition" where
  "ended M connType =
     \<lparr>Level = Info, Locator = LocateDisruptionCheck M ''service-loadbalancer-with-pdb'' connType,
      CondMessage = DisruptionEndedMessage M
        (LocateDisruptionCheck M ''service-loadbalancer-with-pdb'' connType) connType\<rparr>"

text \<open>
  Modelled from the spec: the Sampler is outside the source files at hand. The spec: it
  "invokes probeFn(previousUp) once per interval" and "if probeFn returns a non-nil
  condition, the Sampler appends it to the Monitor's log". The conditions a run of probes
  appends, from the state \<open>previous\<close> on.
\<close>

fun samplerLog ::
  "(bool \<Rightarrow> 'r \<Rightarrow> condition option \<times> bool) \<Rightarrow> bool \<Rightarrow> 'r list \<Rightarrow> condition list" where
  "samplerLog probeFn previous [] = []"
| "samplerLog probeFn previous (r # rs) =
     (case probeFn previous r of
        (None, next) \<Rightarrow> samplerLog probeFn next rs
      | (Some c, next) \<Rightarrow> c # samplerLog probeFn next rs)"

text \<open>The levels of the transitions of a run of states: Error for up to down, Info for down to up.\<close>

fun transitions :: "bool \<Rightarrow> bool list \<Rightarrow> level list" where
  "transitions previous [] = []"
| "transitions previous (up # ups) =
     (if previous \<and> \<not> up then [Error] else if \<not> previous \<and> up then [Info] else [])
     @ transitions up ups"

definition exampleMonitor :: monitor_lib where
  "exampleMonitor =
     \<lparr>LocateDisruptionCheck = (\<lambda>n c. ''disruption/'' @ n),
      DisruptionBeganMessage = (\<lambda>l c e. l @ '' stopped responding: '' @ e),
      DisruptionEndedMessage = (\<lambda>l c. l @ '' started responding''),
      DisruptionContinuingMessage = (\<lambda>l c e. l @ '' is not responding: '' @ e)\<rparr>"


text \<open>The body of an answer \<^verbatim>\<open>503 Service Unavailable\<close> of a load balancer with no backend.\<close>

definition unavailable :: string where
  "unavailable = ''<html><body><h1>503 Service Unavailable</h1></body></html>''"
section \<open>Example inputs\<close>

text \<open>
  A small environment for the examples: a report directory, a file system that answers
  by the functions given, and stand-ins for the two library functions (the format string
  followed by the number of operands; directory, slash, file).
\<close>

definition exampleEnv :: "(string \<Rightarrow> string option) \<Rightarrow> (string \<Rightarrow> string option) \<Rightarrow> env" where
  "exampleEnv cerr werr =
     \<lparr>ReportDir = ''/tmp/artifacts'', createError = cerr, writeError = werr,
      Sprintf = (\<lambda>f as. f @ replicate (length as) CHR ''*''),
      Join = (\<lambda>d f. d @ ''/'' @ f),
      IntervalString = (\<lambda>i. Locator i @ '' '' @ CondMessage i)\<rparr>"

definition exampleWorld :: world where
  "exampleWorld = \<lparr>files = [], stderr = [], logs = [], ginkgoFailed = False, recorded = []\<rparr>"

definition flakeFailure :: failure where
  "flakeFailure = \<lparr>Message = ''disrupted for 5s'', Type = ''Flake'', Value = ''disrupted for 5s''\<rparr>"

definition hardFailure :: failure where
  "hardFailure = \<lparr>Message = ''timed out'', Type = ''Failure'', Value = ''timed out''\<rparr>"

definition exampleSuite :: test_suite where
  "exampleSuite =
     \<lparr>SuiteName = ''upgrade'', Package = ''disruption'', SuiteTime = Fin 0,
      TestCases =
        [(TestCase ''flaky'' ''disruption_tests'' (Fin 1))\<lparr>Failures := [flakeFailure]\<rparr>,
         (TestCase ''broken'' ''disruption_tests'' (Fin 2))\<lparr>Failures := [flakeFailure, hardFailure]\<rparr>,
         TestCase ''fine'' ''disruption_tests'' (Fin 3)]\<rparr>"

text \<open>The spec's three intervals of 0.5s, 0.9s and 0.3s.\<close>

definition jitter :: intervals where
  "jitter = [exampleInterval 0 500000000, exampleInterval (2 * Second) (2 * Second + 900000000),
             exampleInterval (5 * Second) (5 * Second + 300000000)]"

text \<open>
  An outage of 12s on new connections, a blip of half a second, and an outage of 8s on
  reused connections: 20s of disruption by the 1-second floor.
\<close>

definition outage :: intervals where
  "outage =
     [exampleInterval 0 (12 * Second),
      (exampleInterval (20 * Second) (20 * Second + 500000000))\<lparr>CondMessage := ''blipped''\<rparr>,
      (exampleInterval (30 * Second) (38 * Second))
        \<lparr>Locator := ''disruption/service-loadbalancer-with-pdb connection/reused''\<rparr>]"

text \<open>
  A test name with quote characters, a tab, the letter e with an acute accent (C3 A9), the
  line separator U+2028 (E2 80 A8) and a byte that is not UTF-8.
\<close>

definition exampleTestName :: string where
  "exampleTestName =
     ''upgrade to '' @ dquote # ''4.10'' @ [dquote, CHR 0x09, CHR 0xC3, CHR 0xA9, CHR 0xE2, CHR 0x80, CHR 0xA8, CHR 0xFF]"
section \<open>Properties of the UTF-8 decoder\<close>

declare replaceUnsafe.simps [simp del]
declare collapseUnderscores.simps [simp del]

lemma mod_offset:
  fixes x :: nat
  assumes "k * m \<le> x" and "x < k * m + m"
  shows "x mod m = x - k * m"
proof -
  define y where "y = x - k * m"
  have x: "x = y + k * m" and y: "y < m" using assms by (simp_all add: y_def)
  have "(y + k * m) mod m = y mod m" by (rule mod_mult_self1)
  with y show ?thesis by (simp add: x)
qed

lemma mod64_cont: "128 \<le> x \<Longrightarrow> x \<le> 191 \<Longrightarrow> x mod 64 = x - (128::nat)"
  using mod_offset [of 2 64 x] by simp
lemma mod32_lead: "192 \<le> x \<Longrightarrow> x < 224 \<Longrightarrow> x mod 32 = x - (192::nat)"
  using mod_offset [of 6 32 x] by simp
lemma mod16_lead: "224 \<le> x \<Longrightarrow> x < 240 \<Longrightarrow> x mod 16 = x - (224::nat)"
  using mod_offset [of 14 16 x] by simp
lemma mod8_lead: "240 \<le> x \<Longrightarrow> x < 248 \<Longrightarrow> x mod 8 = x - (240::nat)"
  using mod_offset [of 30 8 x] by simp

lemma Decode_ascii: "of_char c < (0x80::nat) \<Longrightarrow> DecodeRuneInString (c # s) = (of_char c, 1)"
  by (simp add: DecodeRuneInString.simps RuneSelf_def)

lemma Decode_invalid_lead:
  "0x80 \<le> (of_char c :: nat) \<Longrightarrow> (of_char c :: nat) < 0xC2 \<or> 0xF4 < (of_char c :: nat) \<Longrightarrow>
   DecodeRuneInString (c # s) = (RuneError, 1)"
  by (simp add: DecodeRuneInString.simps RuneSelf_def)

lemma Decode_2:
  "0xC2 \<le> (of_char c :: nat) \<Longrightarrow> (of_char c :: nat) < 0xE0 \<Longrightarrow>
   DecodeRuneInString (c # s) =
     (if s = [] then (RuneError, 1)
      else if (of_char (s ! 0) :: nat) < 0x80 \<or> 0xBF < (of_char (s ! 0) :: nat) then (RuneError, 1)
      else ((of_char c - 192) * 64 + (of_char (s ! 0) - 128), 2))"
  by (cases s) (simp_all add: DecodeRuneInString.simps RuneSelf_def acceptRange_def Let_def mod64_cont mod32_lead)

lemma Decode_3:
  "0xE0 \<le> (of_char c :: nat) \<Longrightarrow> (of_char c :: nat) < 0xF0 \<Longrightarrow>
   DecodeRuneInString (c # s) =
     (if length s < 2 then (RuneError, 1)
      else if (of_char (s ! 0) :: nat) < fst (acceptRange (of_char c)) \<or> snd (acceptRange (of_char c)) < (of_char (s ! 0) :: nat) then (RuneError, 1)
      else if (of_char (s ! 1) :: nat) < 0x80 \<or> 0xBF < (of_char (s ! 1) :: nat) then (RuneError, 1)
      else ((of_char c - 224) * 4096 + (of_char (s ! 0) - 128) * 64 + (of_char (s ! 1) - 128), 3))"
  by (simp add: DecodeRuneInString.simps RuneSelf_def acceptRange_def Let_def mod64_cont mod16_lead)

lemma Decode_4:
  "0xF0 \<le> (of_char c :: nat) \<Longrightarrow> (of_char c :: nat) \<le> 0xF4 \<Longrightarrow>
   DecodeRuneInString (c # s) =
     (if length s < 3 then (RuneError, 1)
      else if (of_char (s ! 0) :: nat) < fst (acceptRange (of_char c)) \<or> snd (acceptRange (of_char c)) < (of_char (s ! 0) :: nat) then (RuneError, 1)
      else if (of_char (s ! 1) :: nat) < 0x80 \<or> 0xBF < (of_char (s ! 1) :: nat) then (RuneError, 1)
      else if (of_char (s ! 2) :: nat) < 0x80 \<or> 0xBF < (of_char (s ! 2) :: nat) then (RuneError, 1)
      else ((of_char c - 240) * 262144 + (of_char (s ! 0) - 128) * 4096 + (of_char (s ! 1) - 128) * 64 + (of_char (s ! 2) - 128), 4))"
  by (simp add: DecodeRuneInString.simps RuneSelf_def acceptRange_def Let_def mod64_cont mod8_lead)

lemma Decode_nonascii:
  assumes "\<not> (of_char c :: nat) < 0x80"
  shows "0x80 \<le> fst (DecodeRuneInString (c # s))"
proof -
  let ?b = "of_char c :: nat"
  consider "?b < 0xC2 \<or> 0xF4 < ?b" | "0xC2 \<le> ?b" "?b < 0xE0" | "0xE0 \<le> ?b" "?b < 0xF0" | "0xF0 \<le> ?b" "?b \<le> 0xF4"
    by linarith
  then show ?thesis
  proof cases
    case 1
    with assms show ?thesis by (simp add: Decode_invalid_lead RuneError_def)
  next
    case 2
    then show ?thesis by (simp add: Decode_2 RuneError_def) arith
  next
    case 3
    show ?thesis
    proof (cases "?b = 0xE0")
      case True
      then show ?thesis by (simp add: Decode_3 RuneError_def acceptRange_def) arith
    next
      case False
      with 3 show ?thesis by (simp add: Decode_3 RuneError_def) arith
    qed
  next
    case 4
    show ?thesis
    proof (cases "?b = 0xF0")
      case True
      then show ?thesis by (simp add: Decode_4 RuneError_def acceptRange_def) arith
    next
      case False
      with 4 show ?thesis by (simp add: Decode_4 RuneError_def) arith
    qed
  qed
qed


section \<open>Properties of the safe file name\<close>

lemma replaceUnsafe_Nil [simp]: "replaceUnsafe [] = []"
  by (subst replaceUnsafe.simps) simp

lemma safeRune_ascii: "safeRune r \<Longrightarrow> r < 0x80"
  by (auto simp: safeRune_def)

lemma replaceUnsafe_Cons:
  "replaceUnsafe (c # s) =
     (if safeRune (of_char c) then c # replaceUnsafe s
      else CHR ''_'' # replaceUnsafe (drop (snd (DecodeRuneInString (c # s))) (c # s)))"
proof (cases "(of_char c :: nat) < 0x80")
  case True
  then show ?thesis
    by (subst replaceUnsafe.simps) (simp add: Decode_ascii)
next
  case False
  then have "\<not> safeRune (fst (DecodeRuneInString (c # s)))" "\<not> safeRune (of_char c)"
    using Decode_nonascii [OF False, of s] safeRune_ascii by fastforce+
  then show ?thesis
    by (subst replaceUnsafe.simps) (simp add: case_prod_beta)
qed

lemma replaceUnsafe_safe: "c \<in> set (replaceUnsafe s) \<Longrightarrow> safeRune (of_char c)"
proof (induction s arbitrary: c rule: length_induct)
  case (1 s)
  show ?case
  proof (cases s)
    case Nil
    with 1 show ?thesis by simp
  next
    case (Cons d t)
    let ?u = "drop (snd (DecodeRuneInString (d # t))) (d # t)"
    have len: "length ?u < length s"
      using DecodeRuneInString_width [of "d # t"] Cons by simp
    have lt: "length t < length s" using Cons by simp
    show ?thesis
    proof (cases "safeRune (of_char d)")
      case True
      with 1(2) have "c = d \<or> c \<in> set (replaceUnsafe t)"
        unfolding Cons replaceUnsafe_Cons by simp
      with True 1(1) lt show ?thesis by blast
    next
      case False
      with 1(2) have "c = CHR ''_'' \<or> c \<in> set (replaceUnsafe ?u)"
        unfolding Cons replaceUnsafe_Cons by simp
      moreover have "safeRune (of_char CHR ''_'')" by (simp add: safeRune_def)
      ultimately show ?thesis using 1(1) len by blast
    qed
  qed
qed

lemma replaceUnsafe_id: "\<forall>c \<in> set s. safeRune (of_char c) \<Longrightarrow> replaceUnsafe s = s"
  by (induction s) (simp_all add: replaceUnsafe_Cons)

lemma collapseUnderscores_Nil [simp]: "collapseUnderscores [] = []"
  by (subst collapseUnderscores.simps) simp

lemma collapseUnderscores_Cons:
  assumes "(of_char c :: nat) < 0x80"
  shows "collapseUnderscores (c # s) =
     (if c = CHR ''_'' then CHR ''_'' # collapseUnderscores (dropWhile (\<lambda>d. d = CHR ''_'') s)
      else c # collapseUnderscores s)"
proof -
  have "(of_char c = (0x5F::nat)) = (c = CHR ''_'')"
    using of_char_eq_iff [of c "CHR ''_''", where ?'a = nat] by simp
  then show ?thesis
    by (subst collapseUnderscores.simps) (simp add: Decode_ascii [OF assms])
qed

lemma collapse_subset:
  "asciiString s \<Longrightarrow> set (collapseUnderscores s) \<subseteq> set s"
proof (induction s rule: length_induct)
  case (1 s)
  show ?case
  proof (cases s)
    case Nil
    then show ?thesis by simp
  next
    case (Cons c t)
    let ?u = "dropWhile (\<lambda>d. d = CHR ''_'') t"
    have c: "(of_char c :: nat) < 0x80" and t: "asciiString t"
      using 1(2) Cons by (simp_all add: asciiString_def)
    have u: "asciiString ?u" "length ?u < length s" "set ?u \<subseteq> set t"
      using t Cons length_dropWhile_le [of "\<lambda>d. d = CHR ''_''" t] set_dropWhileD [of _ "\<lambda>d. d = CHR ''_''" t]
      by (auto simp: asciiString_def)
    have "set (collapseUnderscores ?u) \<subseteq> set ?u" using 1(1) u by blast
    moreover have "set (collapseUnderscores t) \<subseteq> set t" using 1(1) t Cons by simp
    ultimately show ?thesis
      unfolding Cons collapseUnderscores_Cons [OF c] using u(3) by auto
  qed
qed

lemma collapse_hd:
  "asciiString s \<Longrightarrow> collapseUnderscores s = c # r \<Longrightarrow> \<exists>t. s = c # t"
  by (cases s) (auto simp: asciiString_def collapseUnderscores_Cons split: if_splits)

lemma collapse_no_adjacent:
  "asciiString s \<Longrightarrow> \<not> adjacentUnderscores (collapseUnderscores s)"
proof (induction s rule: length_induct)
  case (1 s)
  show ?case
  proof (cases s)
    case Nil
    then show ?thesis by simp
  next
    case (Cons c t)
    let ?u = "dropWhile (\<lambda>d. d = CHR ''_'') t"
    have c: "(of_char c :: nat) < 0x80" and t: "asciiString t"
      using 1(2) Cons by (simp_all add: asciiString_def)
    have u: "asciiString ?u" "length ?u < length s"
      using t Cons length_dropWhile_le [of "\<lambda>d. d = CHR ''_''" t] set_dropWhileD [of _ "\<lambda>d. d = CHR ''_''" t]
      by (auto simp: asciiString_def)
    have IHu: "\<not> adjacentUnderscores (collapseUnderscores ?u)" using 1(1) u by blast
    have IHt: "\<not> adjacentUnderscores (collapseUnderscores t)" using 1(1) t Cons by simp
    show ?thesis
    proof (cases "c = CHR ''_''")
      case True
      have "\<not> adjacentUnderscores (CHR ''_'' # collapseUnderscores ?u)"
      proof (cases "collapseUnderscores ?u")
        case Nil
        then show ?thesis by simp
      next
        case (Cons d r)
        then obtain v where v: "?u = d # v" using collapse_hd [OF u(1)] by blast
        then have "d \<noteq> CHR ''_''" using hd_dropWhile [of "\<lambda>d. d = CHR ''_''" t] by auto
        with IHu Cons show ?thesis by simp
      qed
      with True show ?thesis unfolding Cons collapseUnderscores_Cons [OF c] by simp
    next
      case False
      have "\<not> adjacentUnderscores (c # collapseUnderscores t)"
        using IHt False by (cases "collapseUnderscores t") simp_all
      with False show ?thesis unfolding Cons collapseUnderscores_Cons [OF c] by simp
    qed
  qed
qed

lemma collapse_id:
  "asciiString s \<Longrightarrow> \<not> adjacentUnderscores s \<Longrightarrow> collapseUnderscores s = s"
proof (induction s)
  case Nil
  then show ?case by simp
next
  case (Cons c t)
  have c: "(of_char c :: nat) < 0x80" and t: "asciiString t"
    using Cons.prems by (simp_all add: asciiString_def)
  have na: "\<not> adjacentUnderscores t" using Cons.prems(2) by (cases t) auto
  have "c = CHR ''_'' \<Longrightarrow> dropWhile (\<lambda>d. d = CHR ''_'') t = t"
    using Cons.prems(2) by (cases t) auto
  then show ?case
    unfolding collapseUnderscores_Cons [OF c] using Cons.IH [OF t na] by simp
qed

lemma replaceUnsafe_ascii: "asciiString (replaceUnsafe s)"
  unfolding asciiString_def using replaceUnsafe_safe safeRune_ascii by blast


lemma allowed_imp_safe: "c \<in> allowedChars \<Longrightarrow> safeRune (of_char c)"
  unfolding allowedChars_def safeRune_def by auto

lemma safe_imp_allowed:
  assumes "safeRune (of_char c)"
  shows "c \<in> allowedChars"
proof -
  define n :: nat where "n = of_char c"
  from assms have "n \<in> {97..<123} \<or> n \<in> {65..<91} \<or> n \<in> {49..<58} \<or> n = 95"
    unfolding safeRune_def n_def [symmetric] by auto
  then have "n \<in> set [97..<123] \<or> n \<in> set [65..<91] \<or> n \<in> set [49..<58] \<or> n = 95"
    by (simp only: set_upt)
  then have "n \<in> of_char ` allowedChars"
    unfolding allowedChars_def
    by (simp add: upt_rec) (elim disjE; simp)
  then obtain d where "d \<in> allowedChars" "of_char d = n" by auto
  then show ?thesis by (simp add: n_def)
qed

lemma zero_not_allowed: "CHR ''0'' \<notin> allowedChars"
  by (simp add: allowedChars_def)

text \<open>
  Claim C10. For every string \<open>s\<close>, \<open>filesystemSafeName s\<close> holds only the characters
  \<open>A-Z\<close>, \<open>a-z\<close>, \<open>1-9\<close> and the underscore (the digit \<open>0\<close> is replaced), it never holds
  two underscores in a row, and applying the function again changes nothing.
\<close>

theorem filesystemSafeName_safe_idempotent:
  "set (filesystemSafeName s) \<subseteq> allowedChars
   \<and> CHR ''0'' \<notin> set (filesystemSafeName s)
   \<and> \<not> adjacentUnderscores (filesystemSafeName s)
   \<and> filesystemSafeName (filesystemSafeName s) = filesystemSafeName s"
proof -
  let ?t = "replaceUnsafe s"
  have ascii: "asciiString ?t" by (rule replaceUnsafe_ascii)
  have sub: "set (collapseUnderscores ?t) \<subseteq> set ?t" by (rule collapse_subset [OF ascii])
  have safe: "\<forall>c \<in> set (collapseUnderscores ?t). safeRune (of_char c)"
    using sub replaceUnsafe_safe by blast
  have allowed: "set (filesystemSafeName s) \<subseteq> allowedChars"
    unfolding filesystemSafeName_def using safe safe_imp_allowed by blast
  have noadj: "\<not> adjacentUnderscores (collapseUnderscores ?t)"
    by (rule collapse_no_adjacent [OF ascii])
  have ascii': "asciiString (collapseUnderscores ?t)"
    using sub ascii unfolding asciiString_def by blast
  have "collapseUnderscores (replaceUnsafe (collapseUnderscores ?t)) = collapseUnderscores ?t"
    using replaceUnsafe_id [OF safe] collapse_id [OF ascii' noadj] by simp
  with allowed noadj zero_not_allowed show ?thesis
    unfolding filesystemSafeName_def by blast
qed

theorem filesystemSafeName_safe_idempotent_witness:
  "filesystemSafeName ''e2e 0.1__x'' = ''e2e_1_x''
   \<and> set ''e2e_1_x'' \<subseteq> allowedChars
   \<and> CHR ''0'' \<notin> set ''e2e_1_x''
   \<and> \<not> adjacentUnderscores ''e2e_1_x''
   \<and> filesystemSafeName ''e2e_1_x'' = ''e2e_1_x''"
proof -
  have e: "filesystemSafeName ''e2e 0.1__x'' = ''e2e_1_x''"
    by (simp add: filesystemSafeName_def replaceUnsafe_Cons collapseUnderscores_Cons safeRune_def
        Decode_ascii)
  show ?thesis
    using filesystemSafeName_safe_idempotent [of "''e2e 0.1__x''"] unfolding e by (simp add: e)
qed

section \<open>Properties of the report\<close>

subsection \<open>The suite finalizer\<close>

declare flakeLoop.simps [simp del]

lemma retypeFlakes_eq:
  "retypeFlakes fs a = (map retypeFailure fs, a \<and> list_all (\<lambda>f. Type f = ''Flake'') fs)"
  by (induction fs arbitrary: a) (auto simp: retypeFailure_def)

lemma flakeLoop_done: "n \<le> i \<Longrightarrow> flakeLoop i n cs = cs"
  by (subst flakeLoop.simps) simp

lemma flakeLoop_step:
  assumes "i < n"
  shows "flakeLoop i n cs =
     flakeLoop (Suc i) n
       (if onlyFlakes (cs ! i) then cs[i := retyped (cs ! i)] @ [passing (cs ! i)]
        else cs[i := retyped (cs ! i)])"
  using assms
  by (subst flakeLoop.simps)
     (simp add: retypeFlakes_eq onlyFlakes_def retyped_def passing_def Let_def)

lemma flakeLoop_inv:
  assumes "i \<le> length orig"
  shows "flakeLoop i (length orig) (map retyped (take i orig) @ drop i orig @ extra) =
         map retyped orig @ extra @ map passing (filter onlyFlakes (drop i orig))"
  using assms
proof (induction "length orig - i" arbitrary: i extra)
  case 0
  then show ?case by (simp add: flakeLoop_done)
next
  case (Suc k)
  then have i: "i < length orig" by simp
  let ?A = "map retyped (take i orig)"
  let ?x = "orig ! i"
  let ?B = "drop (Suc i) orig"
  have d: "drop i orig = ?x # ?B" using i by (simp add: Cons_nth_drop_Suc)
  have t: "take (Suc i) orig = take i orig @ [?x]" using i by (simp add: take_Suc_conv_app_nth)
  have lenA: "length ?A = i" using i by simp
  let ?cs = "?A @ (?x # ?B) @ extra"
  have nth: "?cs ! i = ?x" using lenA by (metis append_Cons nth_append_length)
  have upd: "?cs[i := retyped ?x] = map retyped (take (Suc i) orig) @ ?B @ extra"
    using lenA by (simp add: t list_update_append)
  have k: "k = length orig - Suc i" using Suc.hyps(2) by simp
  have le: "Suc i \<le> length orig" using i by simp
  show ?case
  proof (cases "onlyFlakes ?x")
    case True
    have "flakeLoop i (length orig) ?cs =
          flakeLoop (Suc i) (length orig)
            (map retyped (take (Suc i) orig) @ ?B @ (extra @ [passing ?x]))"
      using True by (simp add: flakeLoop_step [OF i] nth upd del: append_Cons)
    also have "\<dots> = map retyped orig @ (extra @ [passing ?x]) @ map passing (filter onlyFlakes ?B)"
      by (rule Suc.hyps(1) [OF k le])
    finally show ?thesis using True by (simp add: d)
  next
    case False
    have "flakeLoop i (length orig) ?cs =
          flakeLoop (Suc i) (length orig) (map retyped (take (Suc i) orig) @ ?B @ extra)"
      using False by (simp add: flakeLoop_step [OF i] nth upd del: append_Cons)
    also have "\<dots> = map retyped orig @ extra @ map passing (filter onlyFlakes ?B)"
      by (rule Suc.hyps(1) [OF k le])
    finally show ?thesis using False by (simp add: d)
  qed
qed

lemma flakeLoop_closed:
  "flakeLoop 0 (length cs) cs = map retyped cs @ map passing (filter onlyFlakes cs)"
  using flakeLoop_inv [of 0 cs "[]"] by simp

text \<open>
  Claim C5. When the suite is finalized, every case keeps its place with its \<^verbatim>\<open>Flake\<close>
  failures retyped as \<^verbatim>\<open>Failure\<close>, and for each case that only flaked (failures, no error,
  not skipped, every failure a flake) one passing entry with the same name, class name and
  time and without failures is appended; a case with another failure, an error or a skip
  gets none. So a case that only flaked has exactly two entries.
\<close>

theorem suite_finalizer_flakes:
  "TestCases (fst (runChaosmonkey_deferred E elapsed unixNow ts w)) =
     map retyped (TestCases ts) @ map passing (filter onlyFlakes (TestCases ts))
   \<and> (\<forall>tc. onlyFlakes tc \<longrightarrow>
          map Type (Failures (retyped tc)) = replicate (length (Failures tc)) ''Failure''
          \<and> map Message (Failures (retyped tc)) = map Message (Failures tc)
          \<and> map Value (Failures (retyped tc)) = map Value (Failures tc)
          \<and> Name (retyped tc) = Name tc \<and> Classname (retyped tc) = Classname tc
          \<and> Time (retyped tc) = Time tc \<and> Errors (retyped tc) = [] \<and> Skipped (retyped tc) = [])
   \<and> (\<forall>tc. Name (passing tc) = Name tc \<and> Classname (passing tc) = Classname tc
          \<and> Time (passing tc) = Time tc \<and> Failures (passing tc) = []
          \<and> Errors (passing tc) = [] \<and> Skipped (passing tc) = [])"
proof -
  have 1: "TestCases (fst (runChaosmonkey_deferred E elapsed unixNow ts w)) =
     map retyped (TestCases ts) @ map passing (filter onlyFlakes (TestCases ts))"
    by (simp add: runChaosmonkey_deferred_def Let_def flakeLoop_closed split: option.split)
  have r: "list_all (\<lambda>f. Type f = ''Flake'') fs \<Longrightarrow>
           map Type (map retypeFailure fs) = replicate (length fs) ''Failure''" for fs
    by (induction fs) (simp_all add: retypeFailure_def)
  have m: "map Message (map retypeFailure fs) = map Message fs"
          "map Value (map retypeFailure fs) = map Value fs" for fs
    by (induction fs) (simp_all add: retypeFailure_def)
  have 2: "onlyFlakes tc \<Longrightarrow>
          map Type (Failures (retyped tc)) = replicate (length (Failures tc)) ''Failure''
          \<and> map Message (Failures (retyped tc)) = map Message (Failures tc)
          \<and> map Value (Failures (retyped tc)) = map Value (Failures tc)
          \<and> Name (retyped tc) = Name tc \<and> Classname (retyped tc) = Classname tc
          \<and> Time (retyped tc) = Time tc \<and> Errors (retyped tc) = [] \<and> Skipped (retyped tc) = []" for tc
    using r [of "Failures tc"] m [of "Failures tc"] by (simp add: onlyFlakes_def retyped_def)
  have 3: "Name (passing tc) = Name tc \<and> Classname (passing tc) = Classname tc
          \<and> Time (passing tc) = Time tc \<and> Failures (passing tc) = []
          \<and> Errors (passing tc) = [] \<and> Skipped (passing tc) = []" for tc
    by (simp add: passing_def TestCase_def)
  from 1 2 3 show ?thesis by blast
qed

theorem suite_finalizer_flakes_witness:
  "TestCases (fst (runChaosmonkey_deferred (exampleEnv (\<lambda>p. None) (\<lambda>p. None)) 5 7 exampleSuite exampleWorld)) =
     [(TestCase ''flaky'' ''disruption_tests'' (Fin 1))\<lparr>Failures := [flakeFailure\<lparr>Type := ''Failure''\<rparr>]\<rparr>,
      (TestCase ''broken'' ''disruption_tests'' (Fin 2))\<lparr>Failures := [flakeFailure\<lparr>Type := ''Failure''\<rparr>, hardFailure]\<rparr>,
      TestCase ''fine'' ''disruption_tests'' (Fin 3),
      TestCase ''flaky'' ''disruption_tests'' (Fin 1)]"
  using suite_finalizer_flakes [of "exampleEnv (\<lambda>p. None) (\<lambda>p. None)" 5 7 exampleSuite exampleWorld]
  by (simp add: exampleSuite_def onlyFlakes_def retyped_def passing_def retypeFailure_def
      TestCase_def flakeFailure_def hardFailure_def)

subsection \<open>Finalizing one test\<close>

text \<open>A nil framework: the call panics at the loop over the summaries.\<close>

lemma finalizeTest_nil_framework:
  "finalizeTest E elapsed stamp stack r tc ts None w = Inl NilPointerDereference"
  by (simp add: finalizeTest_def)

text \<open>
  Claim C6. A value recovered in \<open>finalizeTest\<close> is turned into one entry of the case: a
  \<^verbatim>\<open>FailurePanic\<close> into the single failure of type \<^verbatim>\<open>Failure\<close> with its message and stack
  trace, a \<^verbatim>\<open>SkipPanic\<close> into the skipped field with file, line and message, any other value
  into the single error of type \<^verbatim>\<open>Panic\<close>; the other two fields stay as they were. Without
  a panic the errors and the skipped field are untouched, and the only failure that can be
  added is the flake the framework recorded.
\<close>

theorem finalizeTest_classifies_panic:
  "finalizedCase (finalizeTest E elapsed stamp stack (Some (FailurePanic msg file line trace)) tc ts (Some fw) w)
     = Some (tc\<lparr>Time := Seconds elapsed,
                Failures := [\<lparr>Message = msg, Type = ''Failure'',
                              Value = Sprintf E (''%s'' @ nl @ nl @ ''%s'') [AString msg, AString trace]\<rparr>]\<rparr>)
   \<and> finalizedCase (finalizeTest E elapsed stamp stack (Some (SkipPanic msg file line trace)) tc ts (Some fw) w)
     = Some (tc\<lparr>Time := Seconds elapsed,
                Skipped := Sprintf E ''%s:%d %q'' [AString file, AInt line, AString msg]\<rparr>)
   \<and> finalizedCase (finalizeTest E elapsed stamp stack (Some (OtherPanic v)) tc ts (Some fw) w)
     = Some (tc\<lparr>Time := Seconds elapsed,
                Errors := [\<lparr>Message = Sprintf E ''%v'' [AValue (OtherPanic v)], Type = ''Panic'',
                            Value = Sprintf E (''%v'' @ nl @ nl @ ''%s'') [AValue (OtherPanic v), AString stack]\<rparr>]\<rparr>)
   \<and> finalizedCase (finalizeTest E elapsed stamp stack None tc ts (Some fw) w)
     = Some (case hasFrameworkFlake (TestSummaries fw) of
               (message, True) \<Rightarrow>
                 tc\<lparr>Time := Seconds elapsed,
                    Failures := Failures tc @ [\<lparr>Message = message, Type = ''Flake'', Value = message\<rparr>]\<rparr>
             | (message, False) \<Rightarrow> tc\<lparr>Time := Seconds elapsed\<rparr>)"
  by (simp add: finalizeTest_def finalizedCase_def Let_def split_beta split: bool.split)

lemma writeSummaries_stderr:
  "stderr (snd (writeSummaries E name stamp summaries (ts, w))) =
     stderr w @ map (writeErrorLine E) (failedWrites E name stamp summaries)"
proof (induction summaries arbitrary: ts w)
  case Nil
  then show ?case by simp
next
  case (Cons s rest)
  show ?case
    by (cases s) (simp_all add: Cons.IH Let_def summaryPath_def writeErrorLine_def split: option.split)
qed

lemma writeSummaries_logs:
  "logs (snd (writeSummaries E name stamp summaries (ts, w))) = logs w
   \<and> ginkgoFailed (snd (writeSummaries E name stamp summaries (ts, w))) = ginkgoFailed w"
proof (induction summaries arbitrary: ts w)
  case Nil
  then show ?case by simp
next
  case (Cons s rest)
  show ?case
    by (cases s) (simp_all add: Cons.IH Let_def split: option.split)
qed

lemma writeSummaries_suite:
  "fst (writeSummaries (E\<lparr>writeError := g\<rparr>) name stamp summaries (ts, w')) =
   fst (writeSummaries E name stamp summaries (ts, w))"
proof (induction summaries arbitrary: ts w w')
  case Nil
  then show ?case by simp
next
  case (Cons s rest)
  show ?case
    by (cases s) (simp_all add: Cons.IH Let_def)
qed

theorem finalizeTest_classifies_panic_witness:
  "finalizedCase (finalizeTest (exampleEnv (\<lambda>p. None) (\<lambda>p. None)) 5 ''2021-11-30T10:00:00Z'' ''stack''
       (Some (FailurePanic ''boom'' ''a_test.go'' 12 ''trace'')) (TestCase ''flaky'' ''disruption_tests'' (Fin 0))
       exampleSuite (Some \<lparr>TestSummaries = [FlakeSummary ''disrupted for 5s'']\<rparr>) exampleWorld)
   = Some \<lparr>Name = ''flaky'', Classname = ''disruption_tests'', Time = Seconds 5, Errors = [],
           Failures = [\<lparr>Message = ''boom'', Type = ''Failure'', Value = ''%s'' @ nl @ nl @ ''%s**''\<rparr>],
           Skipped = []\<rparr>
   \<and> finalizedCase (finalizeTest (exampleEnv (\<lambda>p. None) (\<lambda>p. None)) 5 ''2021-11-30T10:00:00Z'' ''stack''
       None (TestCase ''flaky'' ''disruption_tests'' (Fin 0))
       exampleSuite (Some \<lparr>TestSummaries = [FlakeSummary ''disrupted for 5s'']\<rparr>) exampleWorld)
   = Some \<lparr>Name = ''flaky'', Classname = ''disruption_tests'', Time = Seconds 5, Errors = [],
           Failures = [flakeFailure], Skipped = []\<rparr>"
  using finalizeTest_classifies_panic [of "exampleEnv (\<lambda>p. None) (\<lambda>p. None)" 5 "''2021-11-30T10:00:00Z''"
      "''stack''" "''boom''" "''a_test.go''" 12 "''trace''" "TestCase ''flaky'' ''disruption_tests'' (Fin 0)"
      exampleSuite "\<lparr>TestSummaries = [FlakeSummary ''disrupted for 5s'']\<rparr>" exampleWorld]
  by (simp add: TestCase_def exampleEnv_def flakeFailure_def)

text \<open>
  Claim C7, as the code has it. \<open>finalizeTest\<close> returns whatever the file system answers:
  every summary file that cannot be written gives one line on standard error, in the
  order of the summaries, and the case, the suite, the log and ginkgo's verdict are the
  same for every answer of the file system. When the XML file of the suite cannot be
  created, the suite finalizer returns the suite it would have returned and leaves the
  world as it was: nothing is written and nothing is logged.
\<close>

theorem report_write_errors:
  "(\<exists>tc' ts' w'.
      finalizeTest E elapsed stamp stack r tc ts (Some fw) w = Inr (tc', ts', w')
      \<and> stderr w' = stderr w @ map (writeErrorLine E) (failedWrites E (Name tc) stamp (TestSummaries fw))
      \<and> (\<forall>g. \<exists>w''. finalizeTest (E\<lparr>writeError := g\<rparr>) elapsed stamp stack r tc ts (Some fw) w
                       = Inr (tc', ts', w'')
                     \<and> logs w'' = logs w' \<and> ginkgoFailed w'' = ginkgoFailed w'))
   \<and> (ReportDir E \<noteq> [] \<and> createError E (xmlPath E (Package ts) unixNow) \<noteq> None \<longrightarrow>
        runChaosmonkey_deferred E elapsed unixNow ts w =
          (fst (runChaosmonkey_deferred (E\<lparr>createError := \<lambda>p. None\<rparr>) elapsed unixNow ts w), w))"
proof -
  let ?n = "Name (tc\<lparr>Time := Seconds elapsed\<rparr>)"
  let ?ws = "\<lambda>E. writeSummaries E ?n stamp (TestSummaries fw) (ts, w)"
  obtain tc' ts' w' where res: "finalizeTest E elapsed stamp stack r tc ts (Some fw) w = Inr (tc', ts', w')"
    by (cases "finalizeTest E elapsed stamp stack r tc ts (Some fw) w")
       (auto simp: finalizeTest_def Let_def split_beta split: option.splits bool.splits)
  have err: "stderr w' = stderr (snd (?ws E))"
    using res by (auto simp: finalizeTest_def Let_def split_beta split: option.splits bool.splits if_splits)
  have st: "stderr w' = stderr w @ map (writeErrorLine E) (failedWrites E (Name tc) stamp (TestSummaries fw))"
    unfolding err using writeSummaries_stderr [of E ?n stamp "TestSummaries fw" ts w] by simp
  have indep: "\<exists>w''. finalizeTest (E\<lparr>writeError := g\<rparr>) elapsed stamp stack r tc ts (Some fw) w
                       = Inr (tc', ts', w'')
                     \<and> logs w'' = logs w' \<and> ginkgoFailed w'' = ginkgoFailed w'" for g
  proof -
    have f: "fst (?ws (E\<lparr>writeError := g\<rparr>)) = fst (?ws E)"
      by (rule writeSummaries_suite)
    have l: "logs (snd (?ws (E\<lparr>writeError := g\<rparr>))) = logs w" "logs (snd (?ws E)) = logs w"
      "ginkgoFailed (snd (?ws (E\<lparr>writeError := g\<rparr>))) = ginkgoFailed w"
      "ginkgoFailed (snd (?ws E)) = ginkgoFailed w"
      using writeSummaries_logs by blast+
    show ?thesis
      using res f l
      by (auto simp: finalizeTest_def Let_def split_beta
               split: option.splits bool.splits if_splits panic.splits)
  qed
  have create: "ReportDir E \<noteq> [] \<and> createError E (xmlPath E (Package ts) unixNow) \<noteq> None \<longrightarrow>
        runChaosmonkey_deferred E elapsed unixNow ts w =
          (fst (runChaosmonkey_deferred (E\<lparr>createError := \<lambda>p. None\<rparr>) elapsed unixNow ts w), w)"
    by (auto simp: runChaosmonkey_deferred_def xmlPath_def Let_def)
  from res st indep create show ?thesis by blast
qed

theorem report_write_errors_witness:
  "(\<exists>tc' ts' w'.
      finalizeTest (exampleEnv (\<lambda>p. Some ''read-only file system'') (\<lambda>p. Some ''disk full'')) 5
        ''2021-11-30T10:00:00Z'' ''stack'' None (TestCase ''flaky'' ''disruption_tests'' (Fin 0)) exampleSuite
        (Some \<lparr>TestSummaries = [FlakeSummary ''disrupted for 5s'', AdditionalEvents []]\<rparr>) exampleWorld
        = Inr (tc', ts', w')
      \<and> stderr w' = [''error: Failed to write file %v with test data: %v'' @ nl @ ''**'',
                     ''error: Failed to write file %v with test data: %v'' @ nl @ ''**''])
   \<and> runChaosmonkey_deferred (exampleEnv (\<lambda>p. Some ''read-only file system'') (\<lambda>p. Some ''disk full'')) 5 7
        exampleSuite exampleWorld
      = (fst (runChaosmonkey_deferred (exampleEnv (\<lambda>p. None) (\<lambda>p. Some ''disk full'')) 5 7
                exampleSuite exampleWorld), exampleWorld)"
proof -
  let ?E = "exampleEnv (\<lambda>p. Some ''read-only file system'') (\<lambda>p. Some ''disk full'')"
  have E: "?E\<lparr>createError := \<lambda>p. None\<rparr> = exampleEnv (\<lambda>p. None) (\<lambda>p. Some ''disk full'')"
    by (simp add: exampleEnv_def)
  have R: "ReportDir ?E \<noteq> [] \<and> createError ?E (xmlPath ?E (Package exampleSuite) 7) \<noteq> None"
    by (simp add: exampleEnv_def)
  have S: "stderr exampleWorld = []" by (simp add: exampleWorld_def)
  have F: "map (writeErrorLine ?E)
             (failedWrites ?E (Name (TestCase ''flaky'' ''disruption_tests'' (Fin 0))) ''2021-11-30T10:00:00Z''
                [FlakeSummary ''disrupted for 5s'', AdditionalEvents []])
           = [''error: Failed to write file %v with test data: %v'' @ nl @ ''**'',
              ''error: Failed to write file %v with test data: %v'' @ nl @ ''**'']"
    by (simp add: exampleEnv_def writeErrorLine_def)
  show ?thesis
    using report_write_errors [of ?E 5 "''2021-11-30T10:00:00Z''" "''stack''" None
        "TestCase ''flaky'' ''disruption_tests'' (Fin 0)" exampleSuite
        "\<lparr>TestSummaries = [FlakeSummary ''disrupted for 5s'', AdditionalEvents []]\<rparr>" exampleWorld 7]
    unfolding E using R S F by auto
qed

text \<open>
  The claim C7 as stated asks for a log line on every write error. A failing
  \<^verbatim>\<open>os.Create\<close> of the XML file leaves none: standard error and the log stay empty.
\<close>

theorem junit_create_error_not_logged:
  "createError (exampleEnv (\<lambda>p. Some ''read-only file system'') (\<lambda>p. None))
     (xmlPath (exampleEnv (\<lambda>p. Some ''read-only file system'') (\<lambda>p. None)) (Package exampleSuite) 7)
     = Some ''read-only file system''
   \<and> stderr (snd (runChaosmonkey_deferred (exampleEnv (\<lambda>p. Some ''read-only file system'') (\<lambda>p. None)) 5 7
                     exampleSuite exampleWorld)) = []
   \<and> logs (snd (runChaosmonkey_deferred (exampleEnv (\<lambda>p. Some ''read-only file system'') (\<lambda>p. None)) 5 7
                     exampleSuite exampleWorld)) = []
   \<and> files (snd (runChaosmonkey_deferred (exampleEnv (\<lambda>p. Some ''read-only file system'') (\<lambda>p. None)) 5 7
                     exampleSuite exampleWorld)) = []"
  by (simp add: runChaosmonkey_deferred_def exampleEnv_def exampleWorld_def Let_def)

section \<open>Properties of ExpectNoDisruption\<close>

lemma f64_of_int_0: "f64_of_int 0 = Fin 0"
  by (simp add: f64_of_int_def round_f64_def)

lemma fraction_zero: "fraction 0 t = Fin 0 \<or> fraction 0 t = NaN"
  by (cases "f64_of_int t") (simp_all add: fraction_def f64_of_int_0 round_f64_def)

lemma f64_gt_NaN: "\<not> f64_gt NaN b"
  by simp

lemma fraction_zero_not_gt: "\<not> f64_gt (Fin 0) tolerate \<Longrightarrow> \<not> f64_gt (fraction 0 t) tolerate"
  using fraction_zero [of t] by auto

lemma ExpectNoDisruption_cases:
  "ExpectNoDisruption E f tolerate totalDur events reason w =
     (if f64_gt (fraction (disruption events) totalDur) tolerate then
        (f\<lparr>TestSummaries := TestSummaries f @ [AdditionalEvents events]\<rparr>, w,
         Failed (Sprintf E failFormat
           [AString reason, ADuration (Truncate (disruption events) Second),
            ADuration (Truncate totalDur Second),
            AFloat (f64_mul (fraction (disruption events) totalDur) (Fin 100)),
            AFloat (f64_mul tolerate (Fin 100)), AString (joinStrings (Strings E events) nl)]))
      else if 0 < disruption events then
        (f\<lparr>TestSummaries := TestSummaries f @ [AdditionalEvents events,
             FlakeSummary (Sprintf E flakeFormat
               [AString reason, ADuration (Truncate (disruption events) Second),
                ADuration (Truncate totalDur Second),
                AFloat (f64_mul (fraction (disruption events) totalDur) (Fin 100)),
                AFloat (f64_mul tolerate (Fin 100)), AString (joinStrings (Strings E events) nl)])]\<rparr>,
         w\<lparr>logs := logs w @ [Sprintf E flakeFormat
               [AString reason, ADuration (Truncate (disruption events) Second),
                ADuration (Truncate totalDur Second),
                AFloat (f64_mul (fraction (disruption events) totalDur) (Fin 100)),
                AFloat (f64_mul tolerate (Fin 100)), AString (joinStrings (Strings E events) nl)]]\<rparr>,
         Returned)
      else (f\<lparr>TestSummaries := TestSummaries f @ [AdditionalEvents events]\<rparr>, w, Returned))"
  by (simp add: ExpectNoDisruption_def FrameworkEventIntervals_def FrameworkFlakef_def
      disruption_def fraction_def Let_def)

text \<open>The dump: the line of every interval, in order, with a newline between two lines.\<close>

lemma joinStrings_lines:
  "xs \<noteq> [] \<Longrightarrow> joinStrings xs sep @ sep = concat (map (\<lambda>x. x @ sep) xs)"
  by (induction xs sep rule: joinStrings.induct) simp_all

lemma joinStrings_occurs:
  "x \<in> set xs \<Longrightarrow> \<exists>pre post. joinStrings xs sep = pre @ x @ post"
proof (induction xs sep rule: joinStrings.induct)
  case (1 sep)
  then show ?case by simp
next
  case (2 y sep)
  then have "joinStrings [y] sep = [] @ x @ []" by simp
  then show ?case by blast
next
  case (3 y z rest sep)
  show ?case
  proof (cases "x = y")
    case True
    then have "joinStrings (y # z # rest) sep = [] @ x @ (sep @ joinStrings (z # rest) sep)"
      by simp
    then show ?thesis by blast
  next
    case False
    with 3 obtain pre post where "joinStrings (z # rest) sep = pre @ x @ post"
      by auto
    then have "joinStrings (y # z # rest) sep = (y @ sep @ pre) @ x @ post"
      by simp
    then show ?thesis by blast
  qed
qed

lemma fraction_20_of_600: "f64_gt (fraction (20 * Second) (600 * Second)) (round_f64 (2 / 100))"
  by (simp add: Second_def fraction_def f64_of_int_def) code_simp

lemma fraction_5_of_600: "f64_le (fraction (5 * Second) (600 * Second)) (round_f64 (2 / 100))"
  by (simp add: Second_def fraction_def f64_of_int_def) code_simp

lemma percent_20_of_600:
  "f64_mul (fraction (20 * Second) (600 * Second)) (Fin 100)
     = Fin (7505999378950827 / 2251799813685248)"
  by (simp add: Second_def fraction_def f64_of_int_def) code_simp

lemma percent_5_of_600:
  "f64_mul (fraction (5 * Second) (600 * Second)) (Fin 100)
     = Fin (7505999378950827 / 9007199254740992)"
  by (simp add: Second_def fraction_def f64_of_int_def) code_simp

lemma percent_tolerated: "f64_mul (round_f64 (2 / 100)) (Fin 100) = Fin 2"
  by code_simp

lemma disruption_examples:
  "disruption outage = 20 * Second"
  "disruption [exampleInterval 0 (5 * Second)] = 5 * Second"
  by (simp_all add: disruption_def outage_def exampleInterval_def intervalLength_def Second_def)

lemma Truncate_examples:
  "Truncate (20 * Second) Second = 20 * Second"
  "Truncate (5 * Second) Second = 5 * Second"
  "Truncate (600 * Second) Second = 600 * Second"
  by (simp_all add: Truncate_def Second_def smod_int_alt_def)

lemma dump_examples:
  "joinStrings (Strings (exampleEnv cerr werr) outage) nl =
     ''disruption/service-loadbalancer-with-pdb connection/new stopped responding'' @ nl
     @ ''disruption/service-loadbalancer-with-pdb connection/new blipped'' @ nl
     @ ''disruption/service-loadbalancer-with-pdb connection/reused stopped responding''"
  "joinStrings (Strings (exampleEnv cerr werr) [exampleInterval 0 (5 * Second)]) nl =
     ''disruption/service-loadbalancer-with-pdb connection/new stopped responding''"
  by (simp_all add: Strings_def exampleEnv_def outage_def exampleInterval_def)

text \<open>
  Claim C1. With \<open>D\<close> the summed duration of the intervals, \<open>ExpectNoDisruption\<close> fails the
  test exactly when the \<^verbatim>\<open>float64\<close> quotient \<open>D / total\<close> is greater than \<open>tolerate\<close>. The
  message is then the format of the source applied to the reason, the duration and the
  total (both truncated to seconds), the quotient and \<open>tolerate\<close> (both times 100) and the
  dump. When \<open>0 < D\<close> and the quotient is at most \<open>tolerate\<close> the call returns and records a
  flake of the same operands through \<open>FrameworkFlakef\<close>, which also logs it. The dump is
  the line of every interval in order, a newline between two lines; so the line of each
  interval occurs in it.
\<close>

theorem ExpectNoDisruption_outcome:
  "((\<exists>msg. snd (snd (ExpectNoDisruption E f tolerate totalDur events reason w)) = Failed msg)
      \<longleftrightarrow> f64_gt (fraction (disruption events) totalDur) tolerate)
   \<and> (f64_gt (fraction (disruption events) totalDur) tolerate \<longrightarrow>
        ExpectNoDisruption E f tolerate totalDur events reason w =
          (f\<lparr>TestSummaries := TestSummaries f @ [AdditionalEvents events]\<rparr>, w,
           Failed (Sprintf E
             (''%s for at least %s of %s (%0.0f%%, but only %0.0f%% is tolerated):'' @ nl @ nl @ ''%s'')
             [AString reason, ADuration (Truncate (disruption events) Second),
              ADuration (Truncate totalDur Second),
              AFloat (f64_mul (fraction (disruption events) totalDur) (Fin 100)),
              AFloat (f64_mul tolerate (Fin 100)),
              AString (joinStrings (Strings E events) nl)])))
   \<and> (0 < disruption events \<and> f64_le (fraction (disruption events) totalDur) tolerate \<longrightarrow>
        (\<exists>msg. ExpectNoDisruption E f tolerate totalDur events reason w =
           (f\<lparr>TestSummaries := TestSummaries f @ [AdditionalEvents events, FlakeSummary msg]\<rparr>,
            w\<lparr>logs := logs w @ [msg]\<rparr>, Returned)
         \<and> msg = Sprintf E flakeFormat
             [AString reason, ADuration (Truncate (disruption events) Second),
              ADuration (Truncate totalDur Second),
              AFloat (f64_mul (fraction (disruption events) totalDur) (Fin 100)),
              AFloat (f64_mul tolerate (Fin 100)),
              AString (joinStrings (Strings E events) nl)]))
   \<and> (events \<noteq> [] \<longrightarrow>
        joinStrings (Strings E events) nl @ nl = concat (map (\<lambda>i. IntervalString E i @ nl) events))
   \<and> (\<forall>i \<in> set events. \<exists>pre post.
        joinStrings (Strings E events) nl = pre @ IntervalString E i @ post)"
proof -
  have dump: "joinStrings (Strings E events) nl @ nl = concat (map (\<lambda>i. IntervalString E i @ nl) events)"
    if "events \<noteq> []"
    using that joinStrings_lines [of "Strings E events" nl] by (simp add: Strings_def comp_def)
  have occurs: "\<exists>pre post. joinStrings (Strings E events) nl = pre @ IntervalString E i @ post"
    if "i \<in> set events" for i
    using that joinStrings_occurs [of "IntervalString E i" "Strings E events" nl]
    by (simp add: Strings_def)
  show ?thesis
    using dump occurs by (simp add: ExpectNoDisruption_cases f64_le_def failFormat_def)
qed

theorem ExpectNoDisruption_outcome_witness:
  "ExpectNoDisruption (exampleEnv (\<lambda>p. None) (\<lambda>p. None)) \<lparr>TestSummaries = []\<rparr>
       (round_f64 (2 / 100)) (600 * Second) outage
       ''Service was unreachable during disruption'' exampleWorld
     = (\<lparr>TestSummaries = [AdditionalEvents outage]\<rparr>, exampleWorld,
        Failed (Sprintf (exampleEnv (\<lambda>p. None) (\<lambda>p. None))
          (''%s for at least %s of %s (%0.0f%%, but only %0.0f%% is tolerated):'' @ nl @ nl @ ''%s'')
          [AString ''Service was unreachable during disruption'',
           ADuration (20 * Second), ADuration (600 * Second),
           AFloat (Fin (7505999378950827 / 2251799813685248)), AFloat (Fin 2),
           AString (''disruption/service-loadbalancer-with-pdb connection/new stopped responding'' @ nl
             @ ''disruption/service-loadbalancer-with-pdb connection/new blipped'' @ nl
             @ ''disruption/service-loadbalancer-with-pdb connection/reused stopped responding'')]))
   \<and> ExpectNoDisruption (exampleEnv (\<lambda>p. None) (\<lambda>p. None)) \<lparr>TestSummaries = []\<rparr>
       (round_f64 (2 / 100)) (600 * Second) [exampleInterval 0 (5 * Second)]
       ''Service was unreachable during disruption'' exampleWorld
     = (\<lparr>TestSummaries = [AdditionalEvents [exampleInterval 0 (5 * Second)],
           FlakeSummary (Sprintf (exampleEnv (\<lambda>p. None) (\<lambda>p. None)) flakeFormat
             [AString ''Service was unreachable during disruption'',
              ADuration (5 * Second), ADuration (600 * Second),
              AFloat (Fin (7505999378950827 / 9007199254740992)), AFloat (Fin 2),
              AString ''disruption/service-loadbalancer-with-pdb connection/new stopped responding''])]\<rparr>,
        exampleWorld\<lparr>logs := [Sprintf (exampleEnv (\<lambda>p. None) (\<lambda>p. None)) flakeFormat
             [AString ''Service was unreachable during disruption'',
              ADuration (5 * Second), ADuration (600 * Second),
              AFloat (Fin (7505999378950827 / 9007199254740992)), AFloat (Fin 2),
              AString ''disruption/service-loadbalancer-with-pdb connection/new stopped responding'']]\<rparr>,
        Returned)
   \<and> (\<exists>pre post.
        joinStrings (Strings (exampleEnv (\<lambda>p. None) (\<lambda>p. None)) outage) nl
          = pre @ ''disruption/service-loadbalancer-with-pdb connection/new blipped'' @ post)"
proof -
  let ?E = "exampleEnv (\<lambda>p. None) (\<lambda>p. None)"
  let ?blip = "(exampleInterval (20 * Second) (20 * Second + 500000000))\<lparr>CondMessage := ''blipped''\<rparr>"
  have pos: "0 < 5 * Second" by (simp add: Second_def)
  have l: "logs exampleWorld = []" by (simp add: exampleWorld_def)
  have f: "\<lparr>TestSummaries = []\<rparr>\<lparr>TestSummaries := xs\<rparr> = \<lparr>TestSummaries = xs\<rparr>" for xs :: "summary list"
    by simp
  have mem: "?blip \<in> set outage" by (simp add: outage_def)
  have line: "IntervalString ?E ?blip = ''disruption/service-loadbalancer-with-pdb connection/new blipped''"
    by (simp add: exampleEnv_def exampleInterval_def)
  have ne: "outage \<noteq> []" by (simp add: outage_def)
  note A = ExpectNoDisruption_outcome [of ?E "\<lparr>TestSummaries = []\<rparr>" "round_f64 (2 / 100)" "600 * Second"
        outage "''Service was unreachable during disruption''" exampleWorld]
  note B = ExpectNoDisruption_outcome [of ?E "\<lparr>TestSummaries = []\<rparr>" "round_f64 (2 / 100)" "600 * Second"
        "[exampleInterval 0 (5 * Second)]" "''Service was unreachable during disruption''" exampleWorld]
  have 1: "ExpectNoDisruption ?E \<lparr>TestSummaries = []\<rparr> (round_f64 (2 / 100)) (600 * Second) outage
       ''Service was unreachable during disruption'' exampleWorld
     = (\<lparr>TestSummaries = [AdditionalEvents outage]\<rparr>, exampleWorld,
        Failed (Sprintf ?E
          (''%s for at least %s of %s (%0.0f%%, but only %0.0f%% is tolerated):'' @ nl @ nl @ ''%s'')
          [AString ''Service was unreachable during disruption'',
           ADuration (20 * Second), ADuration (600 * Second),
           AFloat (Fin (7505999378950827 / 2251799813685248)), AFloat (Fin 2),
           AString (''disruption/service-loadbalancer-with-pdb connection/new stopped responding'' @ nl
             @ ''disruption/service-loadbalancer-with-pdb connection/new blipped'' @ nl
             @ ''disruption/service-loadbalancer-with-pdb connection/reused stopped responding'')]))"
    using A fraction_20_of_600
    by (simp only: disruption_examples Truncate_examples percent_20_of_600 percent_tolerated
        dump_examples simp_thms f append_Nil) simp
  have 2: "ExpectNoDisruption ?E \<lparr>TestSummaries = []\<rparr> (round_f64 (2 / 100)) (600 * Second)
       [exampleInterval 0 (5 * Second)] ''Service was unreachable during disruption'' exampleWorld
     = (\<lparr>TestSummaries = [AdditionalEvents [exampleInterval 0 (5 * Second)],
           FlakeSummary (Sprintf ?E flakeFormat
             [AString ''Service was unreachable during disruption'',
              ADuration (5 * Second), ADuration (600 * Second),
              AFloat (Fin (7505999378950827 / 9007199254740992)), AFloat (Fin 2),
              AString ''disruption/service-loadbalancer-with-pdb connection/new stopped responding''])]\<rparr>,
        exampleWorld\<lparr>logs := [Sprintf ?E flakeFormat
             [AString ''Service was unreachable during disruption'',
              ADuration (5 * Second), ADuration (600 * Second),
              AFloat (Fin (7505999378950827 / 9007199254740992)), AFloat (Fin 2),
              AString ''disruption/service-loadbalancer-with-pdb connection/new stopped responding'']]\<rparr>,
        Returned)"
    using B fraction_5_of_600 pos
    by (simp only: disruption_examples Truncate_examples percent_5_of_600 percent_tolerated
        dump_examples simp_thms f append_Nil l) simp
  have 3: "\<exists>pre post. joinStrings (Strings ?E outage) nl
          = pre @ ''disruption/service-loadbalancer-with-pdb connection/new blipped'' @ post"
  proof -
    from A have "\<forall>i \<in> set outage. \<exists>pre post.
        joinStrings (Strings ?E outage) nl = pre @ IntervalString ?E i @ post"
      by blast
    with mem have "\<exists>pre post. joinStrings (Strings ?E outage) nl = pre @ IntervalString ?E ?blip @ post"
      by blast
    then show ?thesis by (simp only: line)
  qed
  from 1 2 3 show ?thesis by (simp only: simp_thms)
qed

lemma Duration_append:
  "Duration d0 m (xs @ ys) = Duration d0 m xs + Duration d0 m ys"
  by (induction xs) simp_all

lemma Duration_subSecond: "list_all subSecond events \<Longrightarrow> Duration d0 Second events = 0"
  by (induction events) (simp_all add: subSecond_def)

text \<open>
  Claim C3. An interval shorter than one second adds nothing to the summed duration. When
  every interval is shorter than one second the duration is 0 and, for a \<open>tolerate\<close> that
  is not negative, \<open>ExpectNoDisruption\<close> does not fail the test; the spec's example is the
  three intervals of 0.5s, 0.9s and 0.3s in a window of 60s with \<open>tolerate = 0\<close>.
\<close>

theorem subsecond_intervals_count_zero:
  "(subSecond i \<longrightarrow> disruption (pre @ i # post) = disruption (pre @ post))
   \<and> (list_all subSecond events \<longrightarrow>
        disruption events = 0
        \<and> (\<not> f64_gt (Fin 0) tolerate \<longrightarrow>
             snd (snd (ExpectNoDisruption E f tolerate totalDur events reason w)) = Returned))"
proof -
  have 1: "subSecond i \<longrightarrow> disruption (pre @ i # post) = disruption (pre @ post)"
    by (simp add: disruption_def Duration_append subSecond_def)
  have 2: "disruption events = 0" if "list_all subSecond events"
    using that by (simp add: disruption_def Duration_subSecond)
  have 3: "snd (snd (ExpectNoDisruption E f tolerate totalDur events reason w)) = Returned"
    if "list_all subSecond events" "\<not> f64_gt (Fin 0) tolerate"
    using 2 [OF that(1)] fraction_zero_not_gt [OF that(2), of totalDur]
    by (simp add: ExpectNoDisruption_cases)
  from 1 2 3 show ?thesis by blast
qed

theorem subsecond_intervals_count_zero_witness:
  "list_all subSecond jitter
   \<and> disruption jitter = 0
   \<and> snd (snd (ExpectNoDisruption (exampleEnv (\<lambda>p. None) (\<lambda>p. None)) \<lparr>TestSummaries = []\<rparr>
        (Fin 0) (60 * Second) jitter ''Service was unreachable during disruption'' exampleWorld)) = Returned
   \<and> disruption ([exampleInterval 0 (5 * Second)] @ exampleInterval 0 500000000 # [])
       = disruption ([exampleInterval 0 (5 * Second)] @ [])"
proof -
  have j: "list_all subSecond jitter"
    by (simp add: jitter_def subSecond_def exampleInterval_def intervalLength_def Second_def)
  have s: "subSecond (exampleInterval 0 500000000)"
    by (simp add: subSecond_def exampleInterval_def intervalLength_def Second_def)
  have z: "\<not> f64_gt (Fin 0) (Fin 0)" by simp
  show ?thesis
    using subsecond_intervals_count_zero [of "exampleInterval 0 500000000" "[exampleInterval 0 (5 * Second)]" "[]"
        jitter "Fin 0" "exampleEnv (\<lambda>p. None) (\<lambda>p. None)" "\<lparr>TestSummaries = []\<rparr>" "60 * Second"
        "''Service was unreachable during disruption''" exampleWorld] j s z
    by simp
qed

text \<open>
  Claim C4, as the code has it. When the summed duration is 0 and \<open>tolerate\<close> is not
  negative, the call neither fails the test nor records a flake nor logs; it does append
  the \<^verbatim>\<open>additionalEvents\<close> summary that holds the intervals to the framework's test summaries,
  as \<open>FrameworkEventIntervals\<close> is the first statement of every call.
\<close>

theorem zero_duration_appends_events:
  "disruption events = 0 \<and> \<not> f64_gt (Fin 0) tolerate \<longrightarrow>
     ExpectNoDisruption E f tolerate totalDur events reason w =
       (f\<lparr>TestSummaries := TestSummaries f @ [AdditionalEvents events]\<rparr>, w, Returned)"
  using fraction_zero_not_gt [of tolerate totalDur]
  by (auto simp: ExpectNoDisruption_cases)

theorem zero_duration_appends_events_witness:
  "disruption jitter = 0 \<and> \<not> f64_gt (Fin 0) (round_f64 (2 / 100))
   \<and> ExpectNoDisruption (exampleEnv (\<lambda>p. None) (\<lambda>p. None)) \<lparr>TestSummaries = []\<rparr>
        (round_f64 (2 / 100)) (60 * Second) jitter ''Service was unreachable during disruption'' exampleWorld
      = (\<lparr>TestSummaries = [AdditionalEvents jitter]\<rparr>, exampleWorld, Returned)"
proof -
  have d: "disruption jitter = 0"
    by (simp add: disruption_def jitter_def exampleInterval_def intervalLength_def Second_def)
  have t: "\<not> f64_gt (Fin 0) (round_f64 (2 / 100))" by code_simp
  show ?thesis
    using zero_duration_appends_events [of jitter "round_f64 (2 / 100)" "exampleEnv (\<lambda>p. None) (\<lambda>p. None)"
        "\<lparr>TestSummaries = []\<rparr>" "60 * Second" "''Service was unreachable during disruption''" exampleWorld] d t
    by simp
qed

text \<open>
  The claim C4 as stated has the test summaries unchanged. For an empty set of intervals
  the duration is 0 and the summaries grow by one entry.
\<close>

theorem zero_duration_changes_summaries:
  "disruption [] = 0
   \<and> TestSummaries (fst (ExpectNoDisruption (exampleEnv (\<lambda>p. None) (\<lambda>p. None)) \<lparr>TestSummaries = []\<rparr>
                         (Fin 0) (60 * Second) [] ''Service was unreachable during disruption'' exampleWorld))
       = [AdditionalEvents []]
   \<and> TestSummaries (fst (ExpectNoDisruption (exampleEnv (\<lambda>p. None) (\<lambda>p. None)) \<lparr>TestSummaries = []\<rparr>
                         (Fin 0) (60 * Second) [] ''Service was unreachable during disruption'' exampleWorld))
       \<noteq> TestSummaries \<lparr>TestSummaries = []\<rparr>"
  using fraction_zero_not_gt [of "Fin 0" "60 * Second"]
  by (simp add: ExpectNoDisruption_cases disruption_def)


section \<open>Properties of the probe functions\<close>

lemma sample_fst:
  "fst (sample E M svcName locator connType how previous res w) =
     (case outerErr res of
        None \<Rightarrow> (if previous then None
                  else Some \<lparr>Level = Info, Locator = locator,
                             CondMessage = DisruptionEndedMessage M locator connType\<rparr>, True)
      | Some e \<Rightarrow> (if previous
                   then Some \<lparr>Level = Error, Locator = locator,
                              CondMessage = DisruptionBeganMessage M locator connType e\<rparr>
                   else None, False))"
  by (simp add: sample_def Let_def split: option.split)

text \<open>
  What the two functions return, by the error of \<^verbatim>\<open>Get\<close> (the outer \<^verbatim>\<open>err\<close>, the one the
  \<^verbatim>\<open>switch\<close> reads): from up, a failed \<^verbatim>\<open>Get\<close> gives the began condition at level Error and
  the next state down; from down, a \<^verbatim>\<open>Get\<close> that answers gives the ended condition at level
  Info and the next state up, whatever the body and whether or not it could be read; when
  the state stays as it was, no condition is returned.
\<close>

lemma sample_by_Get_error:
  "fst (sampleReusedConnection E M svc True (GetError e) w) = (Some (began M ReusedConnectionType e), False)
   \<and> fst (sampleNewConnection E M svc True (GetError e) w) = (Some (began M NewConnectionType e), False)
   \<and> fst (sampleReusedConnection E M svc False (Body b) w) = (Some (ended M ReusedConnectionType), True)
   \<and> fst (sampleNewConnection E M svc False (Body b) w) = (Some (ended M NewConnectionType), True)
   \<and> fst (sampleReusedConnection E M svc False (ReadError e) w) = (Some (ended M ReusedConnectionType), True)
   \<and> fst (sampleNewConnection E M svc False (ReadError e) w) = (Some (ended M NewConnectionType), True)
   \<and> fst (sampleReusedConnection E M svc True (Body b) w) = (None, True)
   \<and> fst (sampleNewConnection E M svc True (Body b) w) = (None, True)
   \<and> fst (sampleReusedConnection E M svc True (ReadError e) w) = (None, True)
   \<and> fst (sampleNewConnection E M svc True (ReadError e) w) = (None, True)
   \<and> fst (sampleReusedConnection E M svc False (GetError e) w) = (None, False)
   \<and> fst (sampleNewConnection E M svc False (GetError e) w) = (None, False)
   \<and> Level (began M c e) = Error \<and> Level (ended M c) = Info"
  by (simp add: sampleReusedConnection_def sampleNewConnection_def sample_fst outerErr_def
      began_def ended_def)

text \<open>
  Over a run of probes threaded as the Sampler of the spec threads them, the levels of the
  conditions logged are the transitions of the run, in order.
\<close>

lemma samplerLog_sample:
  "map Level (samplerLog (\<lambda>p r. fst (sample E M svc loc ct how p r w)) previous rs)
     = transitions previous (map (\<lambda>res. outerErr res = None) rs)"
proof -
  define fn where "fn = (\<lambda>p r. fst (sample E M svc loc ct how p r w))"
  have fn: "fn p r =
     (case outerErr r of
        None \<Rightarrow> (if p then None
                  else Some \<lparr>Level = Info, Locator = loc,
                             CondMessage = DisruptionEndedMessage M loc ct\<rparr>, True)
      | Some e \<Rightarrow> (if p
                   then Some \<lparr>Level = Error, Locator = loc,
                              CondMessage = DisruptionBeganMessage M loc ct e\<rparr>
                   else None, False))" for p r
    by (simp add: fn_def sample_fst)
  have "map Level (samplerLog fn previous rs)
          = transitions previous (map (\<lambda>res. outerErr res = None) rs)"
  proof (induction rs arbitrary: previous)
    case Nil
    then show ?case by simp
  next
    case (Cons r rs)
    show ?case
      by (cases "outerErr r"; cases previous) (simp_all add: Cons.IH fn [of True r] fn [of False r])
  qed
  then show ?thesis by (simp add: fn_def)
qed

lemma samplerLog_levels:
  "map Level (samplerLog (\<lambda>previous res. fst (sampleReusedConnection E M svc previous res w)) previous rs)
     = transitions previous (map (\<lambda>res. outerErr res = None) rs)
   \<and> map Level (samplerLog (\<lambda>previous res. fst (sampleNewConnection E M svc previous res w)) previous rs)
     = transitions previous (map (\<lambda>res. outerErr res = None) rs)"
  unfolding sampleReusedConnection_def sampleNewConnection_def
  by (simp only: samplerLog_sample)

lemma Contains_unavailable: "\<not> Contains unavailable ''Hello''"
  unfolding unavailable_def by (simp add: HasPrefix_def)

text \<open>
  Claim C2, where the code departs from it. The claim has a began condition at level Error
  whenever the previous sample was up and the probe fails. The code builds an error for
  an answer whose body does not hold \<^verbatim>\<open>Hello\<close>, and for a body that cannot be read, but
  assigns it to the \<^verbatim>\<open>err\<close> declared inside the block; the \<^verbatim>\<open>switch\<close> never sees it. With the
  previous sample up, a load balancer's answer \<^verbatim>\<open>503 Service Unavailable\<close> is a failed probe
  by the code's own test, and yet both functions return no condition, stay up, log
  nothing and record no event; so does a body that cannot be read.
\<close>

theorem failed_probe_without_began:
  "innerErr (exampleEnv (\<lambda>p. None) (\<lambda>p. None)) (Body unavailable)
     = Some (Sprintf (exampleEnv (\<lambda>p. None) (\<lambda>p. None))
               ''service returned success but did not contain the correct body contents: %q''
               [AString unavailable])
   \<and> sampleReusedConnection (exampleEnv (\<lambda>p. None) (\<lambda>p. None)) exampleMonitor ''service-test'' True
         (Body unavailable) exampleWorld = ((None, True), exampleWorld)
   \<and> sampleNewConnection (exampleEnv (\<lambda>p. None) (\<lambda>p. None)) exampleMonitor ''service-test'' True
         (Body unavailable) exampleWorld = ((None, True), exampleWorld)
   \<and> innerErr (exampleEnv (\<lambda>p. None) (\<lambda>p. None)) (ReadError ''unexpected EOF'') = Some ''unexpected EOF''
   \<and> sampleReusedConnection (exampleEnv (\<lambda>p. None) (\<lambda>p. None)) exampleMonitor ''service-test'' True
         (ReadError ''unexpected EOF'') exampleWorld = ((None, True), exampleWorld)
   \<and> sampleNewConnection (exampleEnv (\<lambda>p. None) (\<lambda>p. None)) exampleMonitor ''service-test'' True
         (ReadError ''unexpected EOF'') exampleWorld = ((None, True), exampleWorld)"
  by (simp add: innerErr_def Contains_unavailable sampleReusedConnection_def sampleNewConnection_def
      sample_def outerErr_def)
section \<open>Properties of quoting and unquoting\<close>

lemma char_of_of_char_nat: "char_of (of_char c :: nat) = c"
  by simp

lemma div64: "b < 64 \<Longrightarrow> (a * 64 + b) div 64 = (a::nat)"
  by simp

lemma mod64: "b < 64 \<Longrightarrow> (a * 64 + b) mod 64 = (b::nat)"
  by simp

lemma Decode_2_encode:
  fixes c d :: char
  assumes c: "0xC2 \<le> (of_char c :: nat)" "(of_char c :: nat) < 0xE0"
      and d: "0x80 \<le> (of_char d :: nat)" "(of_char d :: nat) \<le> 0xBF"
  shows "DecodeRuneInString (c # d # t) = ((of_char c - 192) * 64 + (of_char d - 128), 2)"
    and "encodeUint32 ((of_char c - 192) * 64 + (of_char d - 128)) = [c, d]"
    and "0x80 \<le> (of_char c - 192) * 64 + (of_char d - 128 :: nat)"
    and "(of_char c - 192) * 64 + (of_char d - 128 :: nat) \<le> 0x7FF"
proof -
  let ?a = "of_char c - 192 :: nat" and ?b = "of_char d - 128 :: nat"
  have a: "2 \<le> ?a" "?a < 32" and b: "?b < 64" using c d by auto
  show "DecodeRuneInString (c # d # t) = (?a * 64 + ?b, 2)"
    using c d by (simp add: Decode_2)
  show lo: "0x80 \<le> ?a * 64 + ?b" using a by simp
  show hi: "?a * 64 + ?b \<le> 0x7FF" using a b by simp
  have dv: "(?a * 64 + ?b) div 64 = ?a" "(?a * 64 + ?b) mod 64 = ?b" using b by simp_all
  have "192 + ?a = of_char c" "128 + ?b = of_char d" using c d by simp_all
  then show "encodeUint32 (?a * 64 + ?b) = [c, d]"
    using lo hi unfolding encodeUint32_def dv by (simp add: dv)
qed


lemma Decode_3_encode:
  fixes c d f :: char
  assumes c: "0xE0 \<le> (of_char c :: nat)" "(of_char c :: nat) < 0xF0"
      and d: "fst (acceptRange (of_char c)) \<le> (of_char d :: nat)"
             "(of_char d :: nat) \<le> snd (acceptRange (of_char c))"
      and f: "0x80 \<le> (of_char f :: nat)" "(of_char f :: nat) \<le> 0xBF"
  defines "r \<equiv> (of_char c - 224) * 4096 + (of_char d - 128) * 64 + (of_char f - 128 :: nat)"
  shows "DecodeRuneInString (c # d # f # t) = (r, 3)"
    and "encodeUint32 r = [c, d, f]"
    and "0x800 \<le> r" and "r \<le> 0xFFFF" and "\<not> (0xD800 \<le> r \<and> r \<le> 0xDFFF)"
proof -
  let ?a = "of_char c - 224 :: nat" and ?b = "of_char d - 128 :: nat" and ?e = "of_char f - 128 :: nat"
  have dr: "0x80 \<le> (of_char d :: nat)" "(of_char d :: nat) \<le> 0xBF"
    using d by (auto simp: acceptRange_def split: if_splits)
  have a: "?a < 16" and b: "?b < 64" and e: "?e < 64" using c dr f by auto
  have r: "r = (?a * 64 + ?b) * 64 + ?e" by (simp add: r_def)
  show "DecodeRuneInString (c # d # f # t) = (r, 3)"
    using c d f dr by (simp add: Decode_3 r_def)
  have b0: "of_char c = (0xE0::nat) \<Longrightarrow> 32 \<le> ?b"
    using d by (simp add: acceptRange_def)
  have bD: "of_char c = (0xED::nat) \<Longrightarrow> ?b \<le> 31"
    using d by (simp add: acceptRange_def)
  have a1: "of_char c \<noteq> (0xE0::nat) \<Longrightarrow> 1 \<le> ?a" using c by auto
  show lo: "0x800 \<le> r"
  proof (cases "of_char c = (0xE0::nat)")
    case True
    with b0 show ?thesis by (simp add: r_def)
  next
    case False
    with a1 have "4096 \<le> ?a * 4096" by simp
    then show ?thesis by (simp add: r_def)
  qed
  show hi: "r \<le> 0xFFFF" using a b e by (simp add: r_def)
  show sur: "\<not> (0xD800 \<le> r \<and> r \<le> 0xDFFF)"
  proof -
    consider "?a < 13" | "?a = 13" | "14 \<le> ?a" by linarith
    then show ?thesis
    proof cases
      case 1
      then have "?a * 4096 \<le> 12 * 4096" by simp
      with b e show ?thesis by (simp add: r_def)
    next
      case 2
      then have "of_char c = (0xED::nat)" using c by simp
      with bD 2 e show ?thesis by (simp add: r_def)
    next
      case 3
      then have "14 * 4096 \<le> ?a * 4096" by simp
      then show ?thesis by (simp add: r_def)
    qed
  qed
  have d1: "r div 64 = ?a * 64 + ?b" and m1: "r mod 64 = ?e"
    unfolding r using e by (simp_all only: div64 mod64)
  have d2: "r div 4096 = ?a"
  proof -
    have "r div 4096 = (r div 64) div 64" by (simp add: div_mult2_eq [symmetric])
    also have "\<dots> = ?a" unfolding d1 using b by (simp only: div64)
    finally show ?thesis .
  qed
  have m2: "(r div 64) mod 64 = ?b" unfolding d1 using b by (simp only: mod64)
  have bk: "224 + ?a = of_char c" "128 + ?b = of_char d" "128 + ?e = of_char f"
    using c dr f by simp_all
  have cond: "(r \<le> 0x7F) = False" "(r \<le> 0x7FF) = False"
    "(r > MaxRune \<or> (0xD800 \<le> r \<and> r \<le> 0xDFFF)) = False" "(r \<le> 0xFFFF) = True"
    using lo hi sur by (simp_all add: MaxRune_def)
  show "encodeUint32 r = [c, d, f]"
    unfolding encodeUint32_def encode3_def cond d2 m2 m1
    by (simp add: bk)
qed

lemma Decode_4_encode:
  fixes c d f g :: char
  assumes c: "0xF0 \<le> (of_char c :: nat)" "(of_char c :: nat) \<le> 0xF4"
      and d: "fst (acceptRange (of_char c)) \<le> (of_char d :: nat)"
             "(of_char d :: nat) \<le> snd (acceptRange (of_char c))"
      and f: "0x80 \<le> (of_char f :: nat)" "(of_char f :: nat) \<le> 0xBF"
      and g: "0x80 \<le> (of_char g :: nat)" "(of_char g :: nat) \<le> 0xBF"
  defines "r \<equiv> (of_char c - 240) * 262144 + (of_char d - 128) * 4096 + (of_char f - 128) * 64
                   + (of_char g - 128 :: nat)"
  shows "DecodeRuneInString (c # d # f # g # t) = (r, 4)"
    and "encodeUint32 r = [c, d, f, g]"
    and "0x10000 \<le> r" and "r \<le> MaxRune"
proof -
  let ?a = "of_char c - 240 :: nat" and ?b = "of_char d - 128 :: nat"
  let ?e = "of_char f - 128 :: nat" and ?h = "of_char g - 128 :: nat"
  have dr: "0x80 \<le> (of_char d :: nat)" "(of_char d :: nat) \<le> 0xBF"
    using d by (auto simp: acceptRange_def split: if_splits)
  have a: "?a \<le> 4" and b: "?b < 64" and e: "?e < 64" and h: "?h < 64" using c dr f g by auto
  have r: "r = ((?a * 64 + ?b) * 64 + ?e) * 64 + ?h" by (simp add: r_def)
  show "DecodeRuneInString (c # d # f # g # t) = (r, 4)"
    using c d f g dr by (simp add: Decode_4 r_def)
  have b0: "of_char c = (0xF0::nat) \<Longrightarrow> 16 \<le> ?b"
    using d by (simp add: acceptRange_def)
  have b4: "of_char c = (0xF4::nat) \<Longrightarrow> ?b \<le> 15"
    using d by (simp add: acceptRange_def)
  show lo: "0x10000 \<le> r"
  proof (cases "of_char c = (0xF0::nat)")
    case True
    with b0 have "16 * 4096 \<le> ?b * 4096" by simp
    then show ?thesis by (simp add: r_def)
  next
    case False
    with c have "1 \<le> ?a" by auto
    then have "262144 \<le> ?a * 262144" by simp
    then show ?thesis by (simp add: r_def)
  qed
  show hi: "r \<le> MaxRune"
  proof (cases "of_char c = (0xF4::nat)")
    case True
    with b4 have "?b * 4096 \<le> 15 * 4096" "?a = 4" by simp_all
    with e h show ?thesis by (simp add: r_def MaxRune_def)
  next
    case False
    with c have "?a \<le> 3" by auto
    then have "?a * 262144 \<le> 3 * 262144" by simp
    with b e h show ?thesis by (simp add: r_def MaxRune_def)
  qed
  have d1: "r div 64 = (?a * 64 + ?b) * 64 + ?e" and m1: "r mod 64 = ?h"
    unfolding r using h by (simp_all only: div64 mod64)
  have d2: "r div 4096 = ?a * 64 + ?b"
  proof -
    have "r div 4096 = (r div 64) div 64" by (simp add: div_mult2_eq [symmetric])
    also have "\<dots> = ?a * 64 + ?b" unfolding d1 using e by (simp only: div64)
    finally show ?thesis .
  qed
  have d3: "r div 262144 = ?a"
  proof -
    have "r div 262144 = (r div 4096) div 64" by (simp add: div_mult2_eq [symmetric])
    also have "\<dots> = ?a" unfolding d2 using b by (simp only: div64)
    finally show ?thesis .
  qed
  have m2: "(r div 64) mod 64 = ?e" unfolding d1 using e by (simp only: mod64)
  have m3: "(r div 4096) mod 64 = ?b" unfolding d2 using b by (simp only: mod64)
  have bk: "240 + ?a = of_char c" "128 + ?b = of_char d" "128 + ?e = of_char f" "128 + ?h = of_char g"
    using c dr f g by simp_all
  have cond: "(r \<le> 0x7F) = False" "(r \<le> 0x7FF) = False"
    "(r > MaxRune \<or> (0xD800 \<le> r \<and> r \<le> 0xDFFF)) = False" "(r \<le> 0xFFFF) = False"
    using lo hi by simp_all
  show "encodeUint32 r = [c, d, f, g]"
    unfolding encodeUint32_def cond d3 m3 m2 m1
    by (simp add: bk)
qed

lemma Decode_valid_multibyte:
  assumes c: "0x80 \<le> (of_char c :: nat)"
      and dec: "DecodeRuneInString (c # s) = (r, w)"
      and ok: "\<not> (r = RuneError \<and> w = 1)"
  shows "encodeUint32 r = take w (c # s) \<and> w \<le> length (c # s) \<and> 2 \<le> w \<and> 0x80 \<le> r \<and> r \<le> MaxRune
         \<and> (\<forall>t. DecodeRuneInString (take w (c # s) @ t) = (r, w))
         \<and> (\<forall>b \<in> set (take w (c # s)). 0x80 \<le> (of_char b :: nat))"
proof -
  let ?b = "of_char c :: nat"
  consider "?b < 0xC2 \<or> 0xF4 < ?b" | "0xC2 \<le> ?b" "?b < 0xE0" | "0xE0 \<le> ?b" "?b < 0xF0"
    | "0xF0 \<le> ?b" "?b \<le> 0xF4"
    by linarith
  then show ?thesis
  proof cases
    case 1
    with c dec ok show ?thesis by (simp add: Decode_invalid_lead)
  next
    case 2
    from dec ok 2 obtain d s' where s: "s = d # s'"
      by (cases s) (auto simp: Decode_2)
    from dec ok 2 s have d: "0x80 \<le> (of_char d :: nat)" "(of_char d :: nat) \<le> 0xBF"
      by (auto simp: Decode_2 split: if_splits)
    note E = Decode_2_encode [OF 2 d]
    from dec s E(1) [of s'] have rw: "r = (?b - 192) * 64 + (of_char d - 128)" "w = 2" by simp_all
    show ?thesis
      using E(2,3,4) E(1) c d unfolding rw s by (simp add: MaxRune_def)
  next
    case 3
    from dec ok 3 obtain d f s' where s: "s = d # f # s'"
      by (cases s; cases "tl s") (auto simp: Decode_3)
    from dec ok 3 s have d: "fst (acceptRange ?b) \<le> (of_char d :: nat)" "(of_char d :: nat) \<le> snd (acceptRange ?b)"
      and f: "0x80 \<le> (of_char f :: nat)" "(of_char f :: nat) \<le> 0xBF"
      by (auto simp: Decode_3 split: if_splits)
    note E = Decode_3_encode [OF 3 d f]
    from dec s E(1) [of s']
    have rw: "r = (?b - 224) * 4096 + (of_char d - 128) * 64 + (of_char f - 128)" "w = 3" by simp_all
    have dr: "0x80 \<le> (of_char d :: nat)"
      using d by (auto simp: acceptRange_def split: if_splits)
    show ?thesis
      using E(2,3,4) E(1) c dr f unfolding rw s by (simp add: MaxRune_def)
  next
    case 4
    from dec ok 4 obtain d f g s' where s: "s = d # f # g # s'"
      by (cases s; cases "tl s"; cases "tl (tl s)") (auto simp: Decode_4)
    from dec ok 4 s have d: "fst (acceptRange ?b) \<le> (of_char d :: nat)" "(of_char d :: nat) \<le> snd (acceptRange ?b)"
      and f: "0x80 \<le> (of_char f :: nat)" "(of_char f :: nat) \<le> 0xBF"
      and g: "0x80 \<le> (of_char g :: nat)" "(of_char g :: nat) \<le> 0xBF"
      by (auto simp: Decode_4 split: if_splits)
    note E = Decode_4_encode [OF 4 d f g]
    from dec s E(1) [of s']
    have rw: "r = (?b - 240) * 262144 + (of_char d - 128) * 4096 + (of_char f - 128) * 64 + (of_char g - 128)"
      "w = 4" by simp_all
    have dr: "0x80 \<le> (of_char d :: nat)"
      using d by (auto simp: acceptRange_def split: if_splits)
    show ?thesis
      using E(2,3,4) E(1) c dr f g unfolding rw s by simp
  qed
qed

lemma unhex_lowerhex: "n < 16 \<Longrightarrow> unhex (lowerhex n) = Some n"
proof -
  assume "n < 16"
  then have "n \<in> set [0..<16]" by simp
  then show ?thesis
    unfolding lowerhex_def
    by (simp add: upt_rec) (elim disjE; simp)
qed

lemma lowerhex_range:
  "n < 16 \<Longrightarrow> (0x30 \<le> (of_char (lowerhex n) :: nat) \<and> (of_char (lowerhex n) :: nat) \<le> 0x39)
              \<or> (0x61 \<le> (of_char (lowerhex n) :: nat) \<and> (of_char (lowerhex n) :: nat) \<le> 0x66)"
proof -
  assume "n < 16"
  then have "n \<in> set [0..<16]" by simp
  then show ?thesis
    unfolding lowerhex_def
    by (simp add: upt_rec) (elim disjE; simp)
qed

lemma length_hexDigits [simp]: "length (hexDigits k r) = k"
  by (induction k) simp_all

lemma hexValue_hexDigits:
  "v * 16 ^ k + r mod 16 ^ k < 2 ^ 32 \<Longrightarrow>
   hexValue v (hexDigits k r) = Some (v * 16 ^ k + r mod 16 ^ k)"
proof (induction k arbitrary: v)
  case 0
  then show ?case by simp
next
  case (Suc n)
  let ?x = "(r div 16 ^ n) mod 16"
  have split: "r mod (16 * 16 ^ n) = ?x * 16 ^ n + r mod 16 ^ n"
    using mod_mult2_eq [of r "16 ^ n" 16] by (simp add: mult.commute)
  have eq: "(v * 16 + ?x) * 16 ^ n + r mod 16 ^ n = v * 16 ^ Suc n + r mod 16 ^ Suc n"
    by (simp add: split algebra_simps)
  have x: "?x < 16" by simp
  have bound: "(v * 16 + ?x) * 16 ^ n + r mod 16 ^ n < 2 ^ 32"
    using Suc.prems unfolding eq .
  have "v * 16 + ?x \<le> (v * 16 + ?x) * 16 ^ n" by simp
  with bound have small: "v * 16 + ?x < 2 ^ 32" by linarith
  have "hexValue v (hexDigits (Suc n) r) = hexValue ((v * 16 + ?x) mod 2 ^ 32) (hexDigits n r)"
    using unhex_lowerhex [OF x] by (simp del: unhex.simps)
  also have "\<dots> = hexValue (v * 16 + ?x) (hexDigits n r)" using small by simp
  also have "\<dots> = Some ((v * 16 + ?x) * 16 ^ n + r mod 16 ^ n)" by (rule Suc.IH [OF bound])
  finally show ?case unfolding eq .
qed

lemma hexValue_hexDigits_0:
  "r < 16 ^ k \<Longrightarrow> k \<le> 8 \<Longrightarrow> hexValue 0 (hexDigits k r) = Some r"
proof -
  assume r: "r < 16 ^ k" and k: "k \<le> 8"
  have "(16::nat) ^ k \<le> 16 ^ 8" using k by (intro power_increasing) simp_all
  with r have "r < 2 ^ 32" by simp
  with r show ?thesis using hexValue_hexDigits [of 0 k r] by simp
qed

declare quoteLoop.simps [simp del] unquoteLoop.simps [simp del] ValidString.simps [simp del]

lemma quoteLoop_Nil [simp]: "quoteLoop tables [] quote = []"
  by (subst quoteLoop.simps) simp

lemma quoteLoop_step:
  "s \<noteq> [] \<Longrightarrow>
   quoteLoop tables s quote = quotePiece tables s quote @ quoteLoop tables (drop (snd (firstRune s)) s) quote"
  by (subst quoteLoop.simps) (simp add: quotePiece_def firstRune_def Let_def split_beta)

lemma firstRune_width: "s \<noteq> [] \<Longrightarrow> 0 < snd (firstRune s)"
  using DecodeRuneInString_width [of s] by (simp add: firstRune_def)

lemma unquoteEscape_letters:
  "unquoteEscape CHR ''a'' s q = Some (0x07, False, s)"
  "unquoteEscape CHR ''b'' s q = Some (0x08, False, s)"
  "unquoteEscape CHR ''f'' s q = Some (0x0C, False, s)"
  "unquoteEscape CHR ''n'' s q = Some (0x0A, False, s)"
  "unquoteEscape CHR ''r'' s q = Some (0x0D, False, s)"
  "unquoteEscape CHR ''t'' s q = Some (0x09, False, s)"
  "unquoteEscape CHR ''v'' s q = Some (0x0B, False, s)"
  by (simp_all add: unquoteEscape_def)

lemma unquoteEscape_quotes:
  "unquoteEscape dquote s dquote = Some (0x22, False, s)"
  "unquoteEscape backslash s q = Some (0x5C, False, s)"
  by (simp_all add: unquoteEscape_def dquote_def backslash_def squote_def)

lemma asInt32_small: "v < 2 ^ 31 \<Longrightarrow> asInt32 v = int v"
  by (simp add: asInt32_def)

lemma unquoteEscape_x:
  "r < 256 \<Longrightarrow> unquoteEscape CHR ''x'' (hexDigits 2 r @ rest) q = Some (int r, False, rest)"
  using hexValue_hexDigits_0 [of r 2] by (simp add: unquoteEscape_def asInt32_small)

lemma unquoteEscape_u:
  "r < 0x10000 \<Longrightarrow> unquoteEscape CHR ''u'' (hexDigits 4 r @ rest) q = Some (int r, True, rest)"
  using hexValue_hexDigits_0 [of r 4] by (simp add: unquoteEscape_def asInt32_small MaxRune_def)

lemma unquoteEscape_U:
  "r \<le> MaxRune \<Longrightarrow> unquoteEscape CHR ''U'' (hexDigits 8 r @ rest) q = Some (int r, True, rest)"
  using hexValue_hexDigits_0 [of r 8] by (simp add: unquoteEscape_def asInt32_small MaxRune_def)

lemma UnquoteChar_backslash:
  "UnquoteChar (backslash # c2 # s2) dquote = unquoteEscape c2 s2 dquote"
  by (simp add: UnquoteChar_Cons backslash_def dquote_def RuneSelf_def)

lemma UnquoteChar_plain:
  "(of_char c :: nat) < 0x80 \<Longrightarrow> c \<noteq> dquote \<Longrightarrow> c \<noteq> backslash \<Longrightarrow>
   UnquoteChar (c # s) dquote = Some (of_char c, False, s)"
  by (simp add: UnquoteChar_Cons RuneSelf_def)

lemma UnquoteChar_multibyte:
  assumes "0x80 \<le> (of_char c :: nat)" "DecodeRuneInString (c # s) = (r, w)"
  shows "UnquoteChar (c # s) dquote = Some (int r, True, drop w (c # s))"
proof -
  have "c \<noteq> dquote" using assms(1) by (auto simp: dquote_def)
  with assms show ?thesis by (simp add: UnquoteChar_Cons RuneSelf_def)
qed

lemma EncodeRune_nat: "r < 2 ^ 32 \<Longrightarrow> EncodeRune (int r) = encodeUint32 r"
proof -
  assume "r < 2 ^ 32"
  then have "int r mod 2 ^ 32 = int r" by simp
  then show ?thesis by (simp add: EncodeRune_def)
qed

lemma of_char_consts:
  "of_char dquote = (0x22::nat)" "of_char backslash = (0x5C::nat)"
  by (simp_all add: dquote_def backslash_def)

lemma appendEscapedRune_backslashed:
  "r = 0x22 \<or> r = 0x5C \<Longrightarrow> appendEscapedRune tables r dquote = [backslash, char_of r]"
  by (auto simp: appendEscapedRune_def dquote_def backslash_def)

lemma appendEscapedRune_print:
  "r \<noteq> 0x22 \<Longrightarrow> r \<noteq> 0x5C \<Longrightarrow> IsPrint tables r \<Longrightarrow>
   appendEscapedRune tables r dquote = EncodeRune (int r)"
  by (simp add: appendEscapedRune_def dquote_def backslash_def)

lemma IsPrint_small: "r < 0x20 \<Longrightarrow> \<not> IsPrint tables r"
  by (simp add: IsPrint_def)

lemma IsPrint_ascii: "r < 0x80 \<Longrightarrow> IsPrint tables r \<longleftrightarrow> 0x20 \<le> r \<and> r \<le> 0x7E"
  by (auto simp: IsPrint_def)

text \<open>The shape of a piece that is an escape sequence, with what UnquoteChar reads from it.\<close>

lemma escaped_piece:
  assumes np: "\<not> IsPrint tables r \<or> r = 0x22 \<or> r = 0x5C" and hi: "r \<le> MaxRune"
  shows "\<exists>tail. appendEscapedRune tables r dquote = backslash # tail
           \<and> newline \<notin> set tail
           \<and> UnquoteChar (appendEscapedRune tables r dquote @ rest) dquote = Some (int r, r \<ge> 0x20 \<and> r \<noteq> 0x22 \<and> r \<noteq> 0x5C, rest)"
proof -
  have hex_nl: "newline \<notin> set (hexDigits k x)" for k x
  proof (induction k)
    case 0
    then show ?case by simp
  next
    case (Suc n)
    have "lowerhex (x div 16 ^ n mod 16) \<noteq> newline"
      using lowerhex_range [of "x div 16 ^ n mod 16"] by (auto simp: newline_def)
    with Suc show ?case by simp
  qed
  consider (q) "r = 0x22 \<or> r = 0x5C"
    | (l) "r \<in> {0x07, 0x08, 0x0C, 0x0A, 0x0D, 0x09, 0x0B}"
    | (x) "r < 0x20" "r \<notin> {0x07, 0x08, 0x0C, 0x0A, 0x0D, 0x09, 0x0B}"
    | (u) "0x20 \<le> r" "r < 0x10000" "r \<noteq> 0x22" "r \<noteq> 0x5C" "\<not> IsPrint tables r"
    | (U) "0x10000 \<le> r" "\<not> IsPrint tables r"
    using np by (cases "r < 0x20"; cases "r < 0x10000") auto
  then show ?thesis
  proof cases
    case q
    have c: "char_of (0x22::nat) = dquote" "char_of (0x5C::nat) = backslash"
      by (simp_all add: dquote_def backslash_def char_of_eq_iff)
    have n: "newline \<noteq> dquote" "newline \<noteq> backslash"
      by (simp_all add: dquote_def backslash_def newline_def)
    from q show ?thesis
    proof
      assume r: "r = 0x22"
      have ap: "appendEscapedRune tables r dquote = [backslash, dquote]"
        using appendEscapedRune_backslashed [of r tables] r c by simp
      show ?thesis
        unfolding ap using n r by (simp add: UnquoteChar_backslash unquoteEscape_quotes)
    next
      assume r: "r = 0x5C"
      have ap: "appendEscapedRune tables r dquote = [backslash, backslash]"
        using appendEscapedRune_backslashed [of r tables] r c by simp
      show ?thesis
        unfolding ap using n r by (simp add: UnquoteChar_backslash unquoteEscape_quotes)
    qed
  next
    case l
    then have "\<not> IsPrint tables r" by (auto simp: IsPrint_def)
    with l show ?thesis
      by (auto simp: appendEscapedRune_def of_char_consts UnquoteChar_backslash
          unquoteEscape_letters newline_def)
  next
    case x
    then have ap: "appendEscapedRune tables r dquote = backslash # CHR ''x'' # hexDigits 2 r"
      by (auto simp: appendEscapedRune_def IsPrint_def of_char_consts)
    from x have "r < 256" by simp
    then show ?thesis
      using x(1) hex_nl [of 2 r]
      by (simp add: ap UnquoteChar_backslash unquoteEscape_x newline_def del: hexDigits.simps)
  next
    case u
    then have ap: "appendEscapedRune tables r dquote = backslash # CHR ''u'' # hexDigits 4 r"
      using hi by (auto simp: appendEscapedRune_def of_char_consts)
    show ?thesis
      using u hex_nl [of 4 r]
      by (simp add: ap UnquoteChar_backslash unquoteEscape_u newline_def del: hexDigits.simps)
  next
    case U
    then have ap: "appendEscapedRune tables r dquote = backslash # CHR ''U'' # hexDigits 8 r"
      using hi by (auto simp: appendEscapedRune_def of_char_consts)
    show ?thesis
      using U hi hex_nl [of 8 r]
      by (simp add: ap UnquoteChar_backslash unquoteEscape_U newline_def del: hexDigits.simps)
  qed
qed

text \<open>What a piece of the quoted body is, and what UnquoteChar makes of it.\<close>

lemma piece_unquote:
  assumes ne: "s \<noteq> []"
  shows "\<exists>v mb. UnquoteChar (quotePiece tables s dquote @ rest) dquote = Some (v, mb, rest)
                \<and> unquoted v mb = take (snd (firstRune s)) s"
    and "(\<exists>tail. quotePiece tables s dquote = backslash # tail \<and> newline \<notin> set tail)
         \<or> (quotePiece tables s dquote = take (snd (firstRune s)) s
            \<and> dquote \<notin> set (quotePiece tables s dquote)
            \<and> backslash \<notin> set (quotePiece tables s dquote)
            \<and> newline \<notin> set (quotePiece tables s dquote))"
proof -
  define p where "p = quotePiece tables s dquote"
  define w where "w = snd (firstRune s)"
  obtain c s' where s: "s = c # s'" using ne by (cases s) auto
  let ?n = "of_char c :: nat"
  have both: "(\<exists>v mb. UnquoteChar (p @ rest) dquote = Some (v, mb, rest) \<and> unquoted v mb = take w s)
      \<and> ((\<exists>tail. p = backslash # tail \<and> newline \<notin> set tail)
         \<or> (p = take w s \<and> dquote \<notin> set p \<and> backslash \<notin> set p \<and> newline \<notin> set p))"
  proof (cases "?n < 0x80")
    case ascii: True
    have fr: "firstRune s = (?n, 1)" using ascii by (simp add: firstRune_def s RuneSelf_def)
    have w1: "w = 1" and tk: "take w s = [c]" unfolding w_def fr by (simp_all add: s)
    have p: "p = appendEscapedRune tables ?n dquote"
      using ascii by (simp add: p_def quotePiece_def fr RuneError_def)
    have small: "unquoted (int ?n) mb = [c]" for mb
      using ascii by (simp add: unquoted_def RuneSelf_def)
    show ?thesis
    proof (cases "\<not> IsPrint tables ?n \<or> ?n = 0x22 \<or> ?n = 0x5C")
      case True
      have "?n \<le> MaxRune" using ascii by (simp add: MaxRune_def)
      from escaped_piece [OF True this, of rest] obtain tail fl where
        e: "appendEscapedRune tables ?n dquote = backslash # tail" "newline \<notin> set tail"
           "UnquoteChar (appendEscapedRune tables ?n dquote @ rest) dquote = Some (int ?n, fl, rest)"
        by blast
      have A: "\<exists>v mb. UnquoteChar (p @ rest) dquote = Some (v, mb, rest) \<and> unquoted v mb = take w s"
        unfolding p tk using e(3) small [of fl] by blast
      have B: "\<exists>tail. p = backslash # tail \<and> newline \<notin> set tail"
        unfolding p using e(1,2) by blast
      from A B show ?thesis by blast
    next
      case False
      then have pr: "IsPrint tables ?n" "?n \<noteq> 0x22" "?n \<noteq> 0x5C" by auto
      have rng: "0x20 \<le> ?n" "?n \<le> 0x7E" using pr(1) ascii by (simp_all add: IsPrint_ascii)
      have pc: "p = [c]"
        using ascii by (simp add: p appendEscapedRune_print [OF pr(2,3,1)] EncodeRune_nat encodeUint32_def)
      have cne: "c \<noteq> dquote" "c \<noteq> backslash" "c \<noteq> newline"
        using pr(2,3) rng by (auto simp: dquote_def backslash_def newline_def)
      have "UnquoteChar (p @ rest) dquote = Some (int ?n, False, rest)"
        unfolding pc using UnquoteChar_plain [OF ascii cne(1,2), of rest] by (simp add: of_nat_of_char)
      then have A: "\<exists>v mb. UnquoteChar (p @ rest) dquote = Some (v, mb, rest) \<and> unquoted v mb = take w s"
        unfolding tk using small [of False] by blast
      have B: "p = take w s \<and> dquote \<notin> set p \<and> backslash \<notin> set p \<and> newline \<notin> set p"
        unfolding pc tk using cne by simp
      from A B show ?thesis by blast
    qed
  next
    case high: False
    then have hi: "0x80 \<le> ?n" by simp
    obtain r k where dec: "DecodeRuneInString (c # s') = (r, k)" by (cases "DecodeRuneInString (c # s')")
    have fr: "firstRune s = (r, k)" using high by (simp add: firstRune_def s RuneSelf_def dec)
    have wk: "w = k" unfolding w_def fr by simp
    show ?thesis
    proof (cases "r = RuneError \<and> k = 1")
      case True
      have p: "p = backslash # CHR ''x'' # hexDigits 2 ?n"
        unfolding p_def quotePiece_def fr using True by (simp add: s)
      have n256: "?n < 256"
        using of_char_mod_256 [of c, where ?'a = nat] mod_less_divisor [of 256 "?n"] by simp
      have nl: "newline \<notin> set (CHR ''x'' # hexDigits 2 ?n)"
      proof -
        have h: "lowerhex x \<noteq> newline" if "x < 16" for x
          using lowerhex_range [OF that] by (auto simp: newline_def)
        show ?thesis
          using h [of "?n div 16 mod 16"] h [of "?n mod 16"]
          by (auto simp: newline_def numeral_2_eq_2)
      qed
      have uq: "unquoted (int ?n) False = [c]" by (simp add: unquoted_def)
      have tk: "take w s = [c]" using True by (simp add: wk s)
      have "UnquoteChar (p @ rest) dquote = Some (int ?n, False, rest)"
        unfolding p using unquoteEscape_x [OF n256, of rest dquote]
        by (simp add: UnquoteChar_backslash del: hexDigits.simps)
      then have A: "\<exists>v mb. UnquoteChar (p @ rest) dquote = Some (v, mb, rest) \<and> unquoted v mb = take w s"
        unfolding tk using uq by blast
      have B: "\<exists>tail. p = backslash # tail \<and> newline \<notin> set tail"
        unfolding p using nl by blast
      from A B show ?thesis by blast
    next
      case valid: False
      note V = Decode_valid_multibyte [OF hi dec valid]
      have enc: "encodeUint32 r = take k (c # s')" and kl: "k \<le> length (c # s')" and k2: "2 \<le> k"
        and r80: "0x80 \<le> r" and rmax: "r \<le> MaxRune"
        and pre: "DecodeRuneInString (take k (c # s') @ rest) = (r, k)"
        and highs: "\<forall>b \<in> set (take k (c # s')). 0x80 \<le> (of_char b :: nat)"
        using V by auto
      have r32: "r < 2 ^ 32" using rmax by (simp add: MaxRune_def)
      have er: "EncodeRune (int r) = take k (c # s')" using EncodeRune_nat [OF r32] enc by simp
      have uq: "unquoted (int r) True = take w s"
        using r80 by (simp add: unquoted_def RuneSelf_def er wk s)
      have p: "p = appendEscapedRune tables r dquote"
        unfolding p_def quotePiece_def fr using valid by auto
      show ?thesis
      proof (cases "IsPrint tables r")
        case True
        have rq: "r \<noteq> 0x22" "r \<noteq> 0x5C" using r80 by auto
        have pt: "p = take k (c # s')"
          by (simp add: p appendEscapedRune_print [OF rq True] er)
        obtain t where tk: "take k (c # s') = c # t" using k2 by (cases k) auto
        have "UnquoteChar (c # t @ rest) dquote = Some (int r, True, drop k (c # t @ rest))"
          using UnquoteChar_multibyte [OF hi, of "t @ rest" r k] pre unfolding tk by simp
        moreover have "drop k (c # t @ rest) = rest"
        proof -
          have "length (c # t) = k" using kl tk by (metis length_take min.absorb2)
          then show ?thesis by (metis append_Cons append_eq_conv_conj)
        qed
        ultimately have uc: "UnquoteChar (p @ rest) dquote = Some (int r, True, rest)"
          unfolding pt tk by simp
        have no: "dquote \<notin> set p" "backslash \<notin> set p" "newline \<notin> set p"
          using highs unfolding pt by (auto simp: dquote_def backslash_def newline_def)
        have A: "\<exists>v mb. UnquoteChar (p @ rest) dquote = Some (v, mb, rest) \<and> unquoted v mb = take w s"
          using uc uq by blast
        have "p = take w s" unfolding pt wk s ..
        with no have B: "p = take w s \<and> dquote \<notin> set p \<and> backslash \<notin> set p \<and> newline \<notin> set p"
          by blast
        from A B show ?thesis by blast
      next
        case False
        then have np: "\<not> IsPrint tables r \<or> r = 0x22 \<or> r = 0x5C" by simp
        have flag: "(0x20 \<le> r \<and> r \<noteq> 0x22 \<and> r \<noteq> 0x5C) = True" using r80 by auto
        from escaped_piece [OF np rmax, of rest] obtain tail where
          e: "appendEscapedRune tables r dquote = backslash # tail" "newline \<notin> set tail"
             "UnquoteChar (appendEscapedRune tables r dquote @ rest) dquote = Some (int r, True, rest)"
          unfolding flag by blast
        have A: "\<exists>v mb. UnquoteChar (p @ rest) dquote = Some (v, mb, rest) \<and> unquoted v mb = take w s"
          unfolding p using e(3) uq by blast
        have B: "\<exists>tail. p = backslash # tail \<and> newline \<notin> set tail"
          unfolding p using e(1,2) by blast
        from A B show ?thesis by blast
      qed
    qed
  qed
  from both show "\<exists>v mb. UnquoteChar (quotePiece tables s dquote @ rest) dquote = Some (v, mb, rest)
                \<and> unquoted v mb = take (snd (firstRune s)) s"
    unfolding p_def w_def by blast
  from both show "(\<exists>tail. quotePiece tables s dquote = backslash # tail \<and> newline \<notin> set tail)
         \<or> (quotePiece tables s dquote = take (snd (firstRune s)) s
            \<and> dquote \<notin> set (quotePiece tables s dquote)
            \<and> backslash \<notin> set (quotePiece tables s dquote)
            \<and> newline \<notin> set (quotePiece tables s dquote))"
    unfolding p_def w_def by blast
qed

lemma quote_chars_distinct:
  "dquote \<noteq> squote" "dquote \<noteq> bquote" "dquote \<noteq> backslash" "dquote \<noteq> newline"
  "backslash \<noteq> newline" "backslash \<noteq> dquote"
  by (simp_all add: dquote_def squote_def bquote_def backslash_def newline_def)

lemma index_None_iff: "index xs c = None \<longleftrightarrow> c \<notin> set xs"
  by (induction xs) auto

lemma contains_set: "contains xs c \<longleftrightarrow> c \<in> set xs"
  by (simp add: contains_def index_None_iff)

lemma index_append_in: "index xs c = Some i \<Longrightarrow> index (xs @ ys) c = Some i"
  by (induction xs arbitrary: i) (auto split: if_splits)

lemma index_append_notin:
  "c \<notin> set xs \<Longrightarrow> index ys c = Some j \<Longrightarrow> index (xs @ ys) c = Some (length xs + j)"
  by (induction xs) auto

lemma index_less: "index xs c = Some i \<Longrightarrow> i < length xs"
  by (induction xs arbitrary: i) (auto split: if_splits)

lemma unquoteLoop_stop: "unquoteLoop q (q # rest) buf = Some (buf, q # rest)"
  by (subst unquoteLoop.simps) simp

lemma unquoteLoop_step:
  "inp \<noteq> [] \<Longrightarrow> hd inp \<noteq> q \<Longrightarrow> hd inp \<noteq> newline \<Longrightarrow> q \<noteq> squote \<Longrightarrow>
   UnquoteChar inp q = Some (v, mb, rest) \<Longrightarrow>
   unquoteLoop q inp buf = unquoteLoop q rest (buf @ unquoted v mb)"
  by (subst unquoteLoop.simps) (simp add: unquoted_def Let_def)

lemma piece_head:
  assumes "s \<noteq> []"
  shows "quotePiece tables s dquote \<noteq> []"
    and "hd (quotePiece tables s dquote) \<noteq> dquote"
    and "hd (quotePiece tables s dquote) \<noteq> newline"
proof -
  define p where "p = quotePiece tables s dquote"
  define w where "w = snd (firstRune s)"
  have w0: "0 < w" using firstRune_width [OF assms] by (simp add: w_def)
  have tk: "take w s \<noteq> []" using w0 assms by simp
  from piece_unquote(2) [OF assms, of tables]
  have "(\<exists>tail. p = backslash # tail)
        \<or> (p = take w s \<and> dquote \<notin> set p \<and> newline \<notin> set p)"
    unfolding p_def w_def by blast
  then have "p \<noteq> [] \<and> hd p \<noteq> dquote \<and> hd p \<noteq> newline"
  proof
    assume "\<exists>tail. p = backslash # tail"
    then show ?thesis using quote_chars_distinct by auto
  next
    assume a: "p = take w s \<and> dquote \<notin> set p \<and> newline \<notin> set p"
    then have "p \<noteq> []" using tk by simp
    then have "hd p \<in> set p" by simp
    with a \<open>p \<noteq> []\<close> show ?thesis by metis
  qed
  then show "quotePiece tables s dquote \<noteq> []" "hd (quotePiece tables s dquote) \<noteq> dquote"
    "hd (quotePiece tables s dquote) \<noteq> newline"
    unfolding p_def by simp_all
qed

lemma unquoteLoop_quoteLoop:
  "unquoteLoop dquote (quoteLoop tables s dquote @ dquote # rest) buf = Some (buf @ s, dquote # rest)"
proof (induction "length s" arbitrary: s buf rule: less_induct)
  case less
  show ?case
  proof (cases "s = []")
    case True
    then show ?thesis by (simp add: unquoteLoop_stop)
  next
    case False
    define w where "w = snd (firstRune s)"
    define p where "p = quotePiece tables s dquote"
    define s2 where "s2 = drop w s"
    define tl2 where "tl2 = quoteLoop tables s2 dquote @ dquote # rest"
    have w0: "0 < w" using firstRune_width [OF False] by (simp add: w_def)
    have len: "length s2 < length s" using w0 False by (simp add: s2_def)
    have Q: "quoteLoop tables s dquote = p @ quoteLoop tables s2 dquote"
      using quoteLoop_step [OF False, of tables dquote] by (simp add: p_def s2_def w_def)
    obtain v mb where u: "UnquoteChar (p @ tl2) dquote = Some (v, mb, tl2)"
      and uq: "unquoted v mb = take w s"
      using piece_unquote(1) [OF False, of tables tl2] unfolding p_def w_def by blast
    have h: "p \<noteq> []" "hd p \<noteq> dquote" "hd p \<noteq> newline"
      using piece_head [OF False, of tables] by (simp_all add: p_def)
    have "unquoteLoop dquote (p @ tl2) buf = unquoteLoop dquote tl2 (buf @ take w s)"
      using unquoteLoop_step [of "p @ tl2" dquote v mb tl2 buf] u h uq quote_chars_distinct(1)
      by simp
    also have "\<dots> = Some ((buf @ take w s) @ s2, dquote # rest)"
      unfolding tl2_def using less(1) [OF len] .
    finally show ?thesis by (simp add: Q s2_def tl2_def)
  qed
qed

text \<open>A quote character in the body stands behind a backslash.\<close>

lemma quoteLoop_dquote_escaped:
  "dquote \<in> set (quoteLoop tables s dquote) \<Longrightarrow>
   \<exists>e. index (quoteLoop tables s dquote) dquote = Some e
       \<and> backslash \<in> set (take e (quoteLoop tables s dquote))"
proof (induction "length s" arbitrary: s rule: less_induct)
  case less
  show ?case
  proof (cases "s = []")
    case True
    with less(2) show ?thesis by simp
  next
    case False
    define w where "w = snd (firstRune s)"
    define p where "p = quotePiece tables s dquote"
    define s2 where "s2 = drop w s"
    define Q2 where "Q2 = quoteLoop tables s2 dquote"
    have w0: "0 < w" using firstRune_width [OF False] by (simp add: w_def)
    have len: "length s2 < length s" using w0 False by (simp add: s2_def)
    have Q: "quoteLoop tables s dquote = p @ Q2"
      using quoteLoop_step [OF False, of tables dquote] by (simp add: p_def s2_def w_def Q2_def)
    from piece_unquote(2) [OF False, of tables]
    have "(\<exists>tail. p = backslash # tail) \<or> dquote \<notin> set p"
      unfolding p_def by blast
    then show ?thesis
    proof
      assume "\<exists>tail. p = backslash # tail"
      then obtain tail where p: "p = backslash # tail" by blast
      from less(2) obtain e where e: "index (p @ Q2) dquote = Some e"
        unfolding Q by (cases "index (p @ Q2) dquote") (simp_all add: index_None_iff)
      have "e \<noteq> 0" using e quote_chars_distinct by (auto simp: p split: if_splits)
      then have "backslash \<in> set (take e (p @ Q2))" by (cases e) (simp_all add: p)
      with e show ?thesis unfolding Q by blast
    next
      assume np: "dquote \<notin> set p"
      with less(2) have "dquote \<in> set Q2" unfolding Q by simp
      from less(1) [OF len this [unfolded Q2_def]] obtain e where
        e: "index Q2 dquote = Some e" "backslash \<in> set (take e Q2)"
        unfolding Q2_def by blast
      have "index (p @ Q2) dquote = Some (length p + e)"
        using index_append_notin [OF np e(1)] .
      moreover have "backslash \<in> set (take (length p + e) (p @ Q2))"
        using e(2) by simp
      ultimately show ?thesis unfolding Q by blast
    qed
  qed
qed

text \<open>A body without a backslash is the string itself.\<close>

lemma quoteLoop_plain:
  "backslash \<notin> set (quoteLoop tables s dquote) \<Longrightarrow> quoteLoop tables s dquote = s"
proof (induction "length s" arbitrary: s rule: less_induct)
  case less
  show ?case
  proof (cases "s = []")
    case True
    then show ?thesis by simp
  next
    case False
    define w where "w = snd (firstRune s)"
    define p where "p = quotePiece tables s dquote"
    define s2 where "s2 = drop w s"
    have w0: "0 < w" using firstRune_width [OF False] by (simp add: w_def)
    have len: "length s2 < length s" using w0 False by (simp add: s2_def)
    have Q: "quoteLoop tables s dquote = p @ quoteLoop tables s2 dquote"
      using quoteLoop_step [OF False, of tables dquote] by (simp add: p_def s2_def w_def)
    from less(2) have nb: "backslash \<notin> set p" "backslash \<notin> set (quoteLoop tables s2 dquote)"
      unfolding Q by simp_all
    from piece_unquote(2) [OF False, of tables]
    have "(\<exists>tail. p = backslash # tail) \<or> p = take w s"
      unfolding p_def w_def by blast
    with nb(1) have p: "p = take w s" by auto
    have "quoteLoop tables s2 dquote = s2" using less(1) [OF len nb(2)] .
    then show ?thesis by (simp add: Q p s2_def)
  qed
qed

lemma Unquote_dquote:
  assumes "index body dquote = Some e"
  shows "Unquote (dquote # body) =
     (if \<not> contains (take (e + 2) (dquote # body)) backslash
         \<and> \<not> contains (take (e + 2) (dquote # body)) newline
         \<and> ValidString (take e body)
      then (if drop (Suc e) body \<noteq> [] then Inl ErrSyntax else Inr (take e body))
      else (case unquoteLoop dquote body [] of
              None \<Rightarrow> Inl ErrSyntax
            | Some (buf, rest) \<Rightarrow>
                if \<not> (length rest > 0 \<and> hd rest = dquote) then Inl ErrSyntax
                else if length (tl rest) > 0 then Inl ErrSyntax else Inr buf))"
proof -
  have ne: "body \<noteq> []" using assms by auto
  then have len: "\<not> length (dquote # body) < 2" by (cases body) simp_all
  show ?thesis
    unfolding Unquote_def
    by (simp only: len if_False Let_def list.sel assms option.case quote_chars_distinct
        simp_thms if_True)
      simp
qed

lemma Unquote_Quote: "Unquote (Quote tables s) = Inr s"
proof -
  define Q where "Q = quoteLoop tables s dquote"
  have slow: "unquoteLoop dquote (Q @ [dquote]) [] = Some (s, [dquote])"
    using unquoteLoop_quoteLoop [of tables s "[]" "[]"] by (simp add: Q_def)
  have quote: "Quote tables s = dquote # (Q @ [dquote])" by (simp add: Quote_def Q_def)
  show ?thesis
  proof (cases "dquote \<in> set Q")
    case True
    then obtain e where e: "index Q dquote = Some e" "backslash \<in> set (take e Q)"
      using quoteLoop_dquote_escaped [of tables s] unfolding Q_def by blast
    have i: "index (Q @ [dquote]) dquote = Some e" using e(1) by (rule index_append_in)
    have el: "e < length Q" using e(1) by (rule index_less)
    have "backslash \<in> set (take (e + 2) (dquote # (Q @ [dquote])))"
      using e(2) el by (auto dest: in_set_takeD simp: take_Suc_conv_app_nth)
    then have "contains (take (e + 2) (dquote # (Q @ [dquote]))) backslash"
      by (simp only: contains_set)
    then show ?thesis
      unfolding quote Unquote_dquote [OF i] by (simp add: slow)
  next
    case False
    have i: "index (Q @ [dquote]) dquote = Some (length Q)"
      using index_append_notin [OF False, of "[dquote]" 0] by simp
    show ?thesis
    proof (cases "backslash \<in> set Q")
      case True
      then have "contains (take (length Q + 2) (dquote # (Q @ [dquote]))) backslash"
        by (simp add: contains_set)
      then show ?thesis
        unfolding quote Unquote_dquote [OF i] by (simp add: slow)
    next
      case False
      then have Qs: "Q = s" using quoteLoop_plain [of tables s] by (simp add: Q_def)
      have slow2: "unquoteLoop dquote (s @ [dquote]) [] = Some (s, [dquote])"
        using slow by (simp only: Qs)
      show ?thesis
        unfolding quote Unquote_dquote [OF i] by (simp add: Qs slow2)
    qed
  qed
qed

lemma SplitN2_locator: "SplitN2 (''e2e-test/'' @ rest) CHR ''/'' = [''e2e-test'', rest]"
  by (simp add: SplitN2_def)

lemma HasPrefix_append: "HasPrefix (p @ rest) p"
  by (simp add: HasPrefix_def)

lemma HasPrefix_split: "HasPrefix l p \<Longrightarrow> l = p @ drop (length p) l"
  by (simp add: HasPrefix_def) (metis append_take_drop_id)

lemma E2ETestFromLocator_prefixed:
  "E2ETestFromLocator (''e2e-test/'' @ rest) =
     (case Unquote rest of Inl err \<Rightarrow> Inr ([], False) | Inr testName \<Rightarrow> Inr (testName, True))"
  unfolding E2ETestFromLocator_def
  by (simp only: HasPrefix_append SplitN2_locator Let_def) simp


text \<open>The digits of an escape sequence, for evaluating examples.\<close>

lemma hexDigits_2: "hexDigits 2 r = [lowerhex (r div 16 mod 16), lowerhex (r mod 16)]"
  unfolding numeral_2_eq_2 by simp

lemma hexDigits_4:
  "hexDigits 4 r = [lowerhex (r div 4096 mod 16), lowerhex (r div 256 mod 16),
                    lowerhex (r div 16 mod 16), lowerhex (r mod 16)]"
proof -
  have "hexDigits (Suc (Suc (Suc (Suc 0)))) r =
     [lowerhex (r div 4096 mod 16), lowerhex (r div 256 mod 16),
      lowerhex (r div 16 mod 16), lowerhex (r mod 16)]"
    by simp
  moreover have "(4::nat) = Suc (Suc (Suc (Suc 0)))" by simp
  ultimately show ?thesis by (simp only:)
qed

lemma Quote_example:
  "Quote (\<lambda>r. False) exampleTestName
     = dquote # ''upgrade to '' @ backslash # dquote # ''4.10'' @ backslash # dquote
         # backslash # ''t'' @ [CHR 0xC3, CHR 0xA9] @ backslash # ''u2028'' @ backslash # ''xff'' @ [dquote]"
  unfolding exampleTestName_def
  by (simp add: Quote_def quoteLoop_step quotePiece_def firstRune_def RuneSelf_def RuneError_def
      MaxRune_def appendEscapedRune_def IsPrint_def EncodeRune_def encodeUint32_def dquote_def
      backslash_def DecodeRuneInString.simps acceptRange_def lowerhex_def hexDigits_2 hexDigits_4
      char_of_eq_iff del: hexDigits.simps)

lemma locator_examples:
  "\<not> HasPrefix ''node/master-0'' ''e2e-test/''"
  "HasPrefix ''e2e-test/upgrade'' ''e2e-test/''"
  "HasPrefix (''e2e-test/'' @ dquote # ''a'' @ backslash # ''tb'' @ [dquote]) ''e2e-test/''"
  by (simp_all add: HasPrefix_def)

lemma Unquote_examples:
  "Unquote (drop 9 ''e2e-test/upgrade'') = Inl ErrSyntax"
  "Unquote (drop 9 (''e2e-test/'' @ dquote # ''a'' @ backslash # ''tb'' @ [dquote]))
     = Inr [CHR ''a'', CHR 0x09, CHR ''b'']"
  by code_simp+

text \<open>
  Claim C9. For every test name \<open>n\<close>, a string of any bytes, \<open>E2ETestFromLocator\<close> reads the
  name back from the locator that \<open>E2ETestLocator\<close> makes of it, and \<open>IsE2ETest\<close> holds of that
  locator, whatever the Unicode tables say is printable; neither call reaches the index
  out of range. A locator that does not start with \<^verbatim>\<open>e2e-test/\<close> gives the empty name and
  false, and so does one that starts with it when \<^verbatim>\<open>strconv.Unquote\<close> rejects what follows the
  prefix; when \<^verbatim>\<open>strconv.Unquote\<close> accepts it, the result is the unquoted string and true.
\<close>

theorem locator_round_trip:
  "E2ETestFromLocator (E2ETestLocator tables n) = Inr (n, True)
   \<and> IsE2ETest (E2ETestLocator tables n) = Inr True
   \<and> (\<not> HasPrefix l ''e2e-test/'' \<longrightarrow> E2ETestFromLocator l = Inr ([], False))
   \<and> (HasPrefix l ''e2e-test/'' \<and> Unquote (drop 9 l) = Inl ErrSyntax \<longrightarrow>
        E2ETestFromLocator l = Inr ([], False))
   \<and> (HasPrefix l ''e2e-test/'' \<and> Unquote (drop 9 l) = Inr t \<longrightarrow>
        E2ETestFromLocator l = Inr (t, True))"
proof -
  have 1: "E2ETestFromLocator (E2ETestLocator tables n) = Inr (n, True)"
    unfolding E2ETestLocator_def E2ETestFromLocator_prefixed by (simp add: Unquote_Quote)
  have 2: "\<not> HasPrefix l ''e2e-test/'' \<longrightarrow> E2ETestFromLocator l = Inr ([], False)"
    by (simp add: E2ETestFromLocator_def)
  have 3: "E2ETestFromLocator l =
      (case Unquote (drop 9 l) of Inl err \<Rightarrow> Inr ([], False) | Inr testName \<Rightarrow> Inr (testName, True))"
    if "HasPrefix l ''e2e-test/''"
  proof -
    have L: "length ''e2e-test/'' = 9" by simp
    have "l = ''e2e-test/'' @ drop 9 l" using HasPrefix_split [OF that] unfolding L .
    then have "E2ETestFromLocator l = E2ETestFromLocator (''e2e-test/'' @ drop 9 l)"
      by (rule arg_cong)
    also have "\<dots> = (case Unquote (drop 9 l) of Inl err \<Rightarrow> Inr ([], False)
                                               | Inr testName \<Rightarrow> Inr (testName, True))"
      by (rule E2ETestFromLocator_prefixed)
    finally show ?thesis .
  qed
  show ?thesis using 1 2 3 by (simp add: IsE2ETest_def)
qed

theorem locator_round_trip_witness:
  "E2ETestLocator (\<lambda>r. False) exampleTestName
     = ''e2e-test/'' @ dquote # ''upgrade to '' @ backslash # dquote # ''4.10'' @ backslash # dquote
         # backslash # ''t'' @ [CHR 0xC3, CHR 0xA9] @ backslash # ''u2028'' @ backslash # ''xff'' @ [dquote]
   \<and> E2ETestFromLocator (E2ETestLocator (\<lambda>r. False) exampleTestName) = Inr (exampleTestName, True)
   \<and> IsE2ETest (E2ETestLocator (\<lambda>r. False) exampleTestName) = Inr True
   \<and> \<not> HasPrefix ''node/master-0'' ''e2e-test/''
   \<and> E2ETestFromLocator ''node/master-0'' = Inr ([], False)
   \<and> HasPrefix ''e2e-test/upgrade'' ''e2e-test/''
   \<and> Unquote (drop 9 ''e2e-test/upgrade'') = Inl ErrSyntax
   \<and> E2ETestFromLocator ''e2e-test/upgrade'' = Inr ([], False)
   \<and> E2ETestFromLocator (''e2e-test/'' @ dquote # ''a'' @ backslash # ''tb'' @ [dquote])
       = Inr ([CHR ''a'', CHR 0x09, CHR ''b''], True)"
proof -
  have q: "E2ETestLocator (\<lambda>r. False) exampleTestName
     = ''e2e-test/'' @ dquote # ''upgrade to '' @ backslash # dquote # ''4.10'' @ backslash # dquote
         # backslash # ''t'' @ [CHR 0xC3, CHR 0xA9] @ backslash # ''u2028'' @ backslash # ''xff'' @ [dquote]"
    unfolding E2ETestLocator_def Quote_example ..
  show ?thesis
    using locator_round_trip [of "\<lambda>r. False" exampleTestName "''node/master-0''" "[]"]
      locator_round_trip [of "\<lambda>r. False" exampleTestName "''e2e-test/upgrade''" "[]"]
      locator_round_trip [of "\<lambda>r. False" exampleTestName
        "''e2e-test/'' @ dquote # ''a'' @ backslash # ''tb'' @ [dquote]" "[CHR ''a'', CHR 0x09, CHR ''b'']"]
      locator_examples Unquote_examples q
    by (simp only: simp_thms)
qed
end
